theory Spec2Isabelle
  imports Complex_Main "HOL-Library.Sublist"
begin

section \<open>The browser driver as seen by the services\<close>

text \<open>
  The services talk to the browser through a chrome-remote-interface client. Every
  protocol call is awaited: it either resolves or rejects, it takes some time, and network
  events may be delivered to registered handlers while the caller is suspended.
  A rejected promise or a thrown exception is \<open>Inl message\<close>, a fulfilled one \<open>Inr value\<close>.
\<close>

type_synonym 'a settled = "string + 'a"

datatype net_event = RequestWillBeSent | LoadingFinished

record rect =
  rect_x :: real
  rect_y :: real
  rect_width :: real
  rect_height :: real

text \<open>The expressions that the services hand to \<open>Runtime.evaluate\<close>.\<close>

datatype script =
  TextIncludes string
| LocationHref
| ElementProbe string
| RectProbe string

datatype cdp_method =
  Network_enable
| Network_disable
| DOM_getDocument
| DOM_querySelector nat string
| Runtime_evaluate script

text \<open>The values that come back by value from an evaluated script.\<close>

datatype js_value =
  JUndefined
| JNull
| JBool bool
| JString string
| JRect rect
| JProbe bool bool rect

fun truthy :: "js_value \<Rightarrow> bool" where
  "truthy JUndefined = False"
| "truthy JNull = False"
| "truthy (JBool b) = b"
| "truthy (JString s) = (s \<noteq> [])"
| "truthy (JRect r) = True"
| "truthy (JProbe v e r) = True"

fun js_to_string :: "js_value \<Rightarrow> string" where
  "js_to_string JUndefined = ''undefined''"
| "js_to_string JNull = ''null''"
| "js_to_string (JBool b) = (if b then ''true'' else ''false'')"
| "js_to_string (JString s) = s"
| "js_to_string (JRect r) = ''[object Object]''"
| "js_to_string (JProbe v e r) = ''[object Object]''"

record eval_reply =
  exceptionDetails :: "string option"
  result_value :: js_value

subsection \<open>The page, and the scripts run inside it\<close>

record dom_element =
  el_rect :: rect
  style_visibility :: string
  style_display :: string
  style_opacity :: string
  style_pointerEvents :: string
  el_disabled :: bool
  el_readOnly :: bool
  el_aria_disabled :: bool

text \<open>
  \<open>page_innerText\<close> is \<open>None\<close> when \<open>document.body\<close> is null (reading \<open>innerText\<close> then
  throws inside the page); \<open>page_querySelector\<close> is \<open>Inl\<close> when \<open>document.querySelector\<close>
  throws on the selector.
\<close>

record page =
  page_href :: string
  page_innerText :: "string option"
  page_querySelector :: "string \<Rightarrow> dom_element option settled"

text \<open>\<open>String.prototype.includes\<close>: a plain, case-sensitive substring test.\<close>

fun js_includes :: "string \<Rightarrow> string \<Rightarrow> bool" where
  "js_includes [] t = (t = [])"
| "js_includes (c # cs) t = (prefix t (c # cs) \<or> js_includes cs t)"

definition isVisible :: "dom_element \<Rightarrow> bool" where
  "isVisible el =
     (rect_width (el_rect el) > 0 \<and> rect_height (el_rect el) > 0 \<and>
      style_visibility el \<noteq> ''hidden'' \<and>
      style_display el \<noteq> ''none'' \<and>
      style_opacity el \<noteq> ''0'')"

definition isEnabled :: "dom_element \<Rightarrow> bool" where
  "isEnabled el =
     (\<not> el_disabled el \<and> \<not> el_readOnly el \<and> \<not> el_aria_disabled el \<and>
      style_pointerEvents el \<noteq> ''none'')"

fun run_script :: "page \<Rightarrow> script \<Rightarrow> eval_reply" where
  "run_script p (TextIncludes t) =
     (case page_innerText p of
        None \<Rightarrow> \<lparr>exceptionDetails = Some ''Uncaught'', result_value = JUndefined\<rparr>
      | Some body \<Rightarrow> \<lparr>exceptionDetails = None, result_value = JBool (js_includes body t)\<rparr>)"
| "run_script p LocationHref =
     \<lparr>exceptionDetails = None, result_value = JString (page_href p)\<rparr>"
| "run_script p (ElementProbe sel) =
     (case page_querySelector p sel of
        Inl e \<Rightarrow> \<lparr>exceptionDetails = Some e, result_value = JUndefined\<rparr>
      | Inr None \<Rightarrow> \<lparr>exceptionDetails = None, result_value = JNull\<rparr>
      | Inr (Some el) \<Rightarrow>
          \<lparr>exceptionDetails = None,
           result_value = JProbe (isVisible el) (isEnabled el) (el_rect el)\<rparr>)"
| "run_script p (RectProbe sel) =
     (case page_querySelector p sel of
        Inl e \<Rightarrow> \<lparr>exceptionDetails = Some e, result_value = JUndefined\<rparr>
      | Inr None \<Rightarrow> \<lparr>exceptionDetails = None, result_value = JNull\<rparr>
      | Inr (Some el) \<Rightarrow> \<lparr>exceptionDetails = None, result_value = JRect (el_rect el)\<rparr>)"

subsection \<open>The outside world and the client-side state\<close>

text \<open>
  The browser, the network and the transport are a state \<open>'w\<close> that only the environment
  changes. \<open>transport m w\<close> says how the protocol call \<open>m\<close> issued in state \<open>w\<close> goes:
  whether the promise rejects, how many milliseconds it takes, which network events arrive
  meanwhile (with their offset in milliseconds) and the state afterwards. \<open>timer d w\<close> does
  the same for \<open>setTimeout(resolve, d)\<close>: how late the timer fires, the events, the state
  afterwards. \<open>RegExp_new\<close> is the host's regular-expression engine (\<open>Inl\<close>: the pattern
  is a syntax error, with the engine's message).
\<close>

type_synonym arrivals = "(nat \<times> net_event) list"

record 'w driver =
  transport :: "cdp_method \<Rightarrow> 'w \<Rightarrow> string option \<times> nat \<times> arrivals \<times> 'w"
  timer :: "nat \<Rightarrow> 'w \<Rightarrow> nat \<times> arrivals \<times> 'w"
  dom_root :: "'w \<Rightarrow> nat"
  dom_query :: "'w \<Rightarrow> nat \<Rightarrow> string \<Rightarrow> nat option"
  page_of :: "'w \<Rightarrow> page"
  RegExp_new :: "string \<Rightarrow> string + (string \<Rightarrow> bool)"

text \<open>
  What the client side holds: the clock read by \<open>Date.now()\<close>, the outside world, the log
  of protocol calls issued, the event handlers registered on the client (each writes the
  current time into the variable it closed over, a cell of \<open>cells\<close>), and the number of
  cells allocated so far. The clock advances only while the caller is suspended, by the
  duration of what it awaits: the code between two suspensions takes no time, and every
  awaited operation settles.
\<close>

record 'w world =
  clock :: int
  outside :: 'w
  calls :: "cdp_method list"
  listeners :: "(net_event \<times> nat) list"
  cells :: "nat \<Rightarrow> int"
  allocated :: nat

definition fire :: "int \<Rightarrow> net_event \<Rightarrow> (net_event \<times> nat) list \<Rightarrow> (nat \<Rightarrow> int) \<Rightarrow> (nat \<Rightarrow> int)" where
  "fire t ev ls cs = fold (\<lambda>(k, c) acc. if k = ev then acc(c := t) else acc) ls cs"

definition deliver :: "int \<Rightarrow> nat \<Rightarrow> arrivals \<Rightarrow> (net_event \<times> nat) list \<Rightarrow> (nat \<Rightarrow> int) \<Rightarrow> (nat \<Rightarrow> int)" where
  "deliver t0 d evs ls cs = fold (\<lambda>(off, ev) acc. fire (t0 + int (min off d)) ev ls acc) evs cs"

definition suspend :: "nat \<Rightarrow> arrivals \<Rightarrow> 'w \<Rightarrow> 'w world \<Rightarrow> 'w world" where
  "suspend d evs w st =
     st\<lparr>clock := clock st + int d,
        outside := w,
        cells := deliver (clock st) d evs (listeners st) (cells st)\<rparr>"

definition await_call :: "'w driver \<Rightarrow> cdp_method \<Rightarrow> 'w world \<Rightarrow> string option \<times> 'w world" where
  "await_call drv m st =
     (case transport drv m (outside st) of
        (failure, d, evs, w) \<Rightarrow> (failure, suspend d evs w (st\<lparr>calls := calls st @ [m]\<rparr>)))"

definition sleep :: "'w driver \<Rightarrow> nat \<Rightarrow> 'w world \<Rightarrow> 'w world" where
  "sleep drv d st =
     (case timer drv d (outside st) of (late, evs, w) \<Rightarrow> suspend (d + late) evs w st)"

definition client_Network_enable :: "'w driver \<Rightarrow> 'w world \<Rightarrow> unit settled \<times> 'w world" where
  "client_Network_enable drv st =
     (case await_call drv Network_enable st of
        (Some e, st1) \<Rightarrow> (Inl e, st1)
      | (None, st1) \<Rightarrow> (Inr (), st1))"

definition client_Network_disable :: "'w driver \<Rightarrow> 'w world \<Rightarrow> unit settled \<times> 'w world" where
  "client_Network_disable drv st =
     (case await_call drv Network_disable st of
        (Some e, st1) \<Rightarrow> (Inl e, st1)
      | (None, st1) \<Rightarrow> (Inr (), st1))"

definition client_DOM_getDocument :: "'w driver \<Rightarrow> 'w world \<Rightarrow> nat settled \<times> 'w world" where
  "client_DOM_getDocument drv st =
     (case await_call drv DOM_getDocument st of
        (Some e, st1) \<Rightarrow> (Inl e, st1)
      | (None, st1) \<Rightarrow> (Inr (dom_root drv (outside st1)), st1))"

definition client_DOM_querySelector ::
  "'w driver \<Rightarrow> nat \<Rightarrow> string \<Rightarrow> 'w world \<Rightarrow> nat option settled \<times> 'w world" where
  "client_DOM_querySelector drv rootId sel st =
     (case await_call drv (DOM_querySelector rootId sel) st of
        (Some e, st1) \<Rightarrow> (Inl e, st1)
      | (None, st1) \<Rightarrow> (Inr (dom_query drv (outside st1) rootId sel), st1))"

definition client_Runtime_evaluate ::
  "'w driver \<Rightarrow> script \<Rightarrow> 'w world \<Rightarrow> eval_reply settled \<times> 'w world" where
  "client_Runtime_evaluate drv s st =
     (case await_call drv (Runtime_evaluate s) st of
        (Some e, st1) \<Rightarrow> (Inl e, st1)
      | (None, st1) \<Rightarrow> (Inr (run_script (page_of drv (outside st1)) s), st1))"

text \<open>
  \<open>client.Network.requestWillBeSent(handler)\<close> and \<open>client.Network.loadingFinished(handler)\<close>
  add a handler to the client; the services keep no handle to remove it again.
\<close>

definition client_on :: "net_event \<Rightarrow> nat \<Rightarrow> 'w world \<Rightarrow> 'w world" where
  "client_on ev cell st = st\<lparr>listeners := listeners st @ [(ev, cell)]\<rparr>"

definition new_cell :: "int \<Rightarrow> 'w world \<Rightarrow> nat \<times> 'w world" where
  "new_cell v st =
     (allocated st, st\<lparr>cells := (cells st)(allocated st := v), allocated := Suc (allocated st)\<rparr>)"


section \<open>WaitService.waitFor\<close>

record options =
  opt_element :: "string option"
  opt_text :: "string option"
  opt_url :: "string option"
  opt_networkIdle :: "int option"
  opt_timeout :: "int option"

record conditions =
  cond_element :: "bool option"
  cond_text :: "bool option"
  cond_url :: "bool option"
  cond_networkIdle :: "bool option"

record actual_state =
  currentUrl :: js_value
  elementFound :: bool
  textFound :: js_value

record wait_outcome =
  success :: bool
  out_conditions :: conditions
  actualState :: actual_state
  timeElapsed :: int

definition DEFAULT_WAIT_TIMEOUT_MS :: int where
  "DEFAULT_WAIT_TIMEOUT_MS = 5000"

definition MAX_WAIT_TIMEOUT_MS :: int where
  "MAX_WAIT_TIMEOUT_MS = 30000"

definition WAIT_CHECK_INTERVAL_MS :: nat where
  "WAIT_CHECK_INTERVAL_MS = 100"

text \<open>
  \<open>Math.min(options.timeout || DEFAULT_WAIT_TIMEOUT_MS, MAX_WAIT_TIMEOUT_MS)\<close>: an absent
  timeout and the timeout 0 are both falsy.
\<close>

definition effective_timeout :: "options \<Rightarrow> int" where
  "effective_timeout opts =
     min (case opt_timeout opts of
            None \<Rightarrow> DEFAULT_WAIT_TIMEOUT_MS
          | Some t \<Rightarrow> if t = 0 then DEFAULT_WAIT_TIMEOUT_MS else t)
         MAX_WAIT_TIMEOUT_MS"

text \<open>
  \<open>options.element ? false : undefined\<close>, and likewise for text and url: an absent string
  and the empty string are both falsy. \<open>networkIdle\<close> is tested with \<open>!== undefined\<close>.
\<close>

definition requested :: "string option \<Rightarrow> bool" where
  "requested s = (case s of None \<Rightarrow> False | Some v \<Rightarrow> v \<noteq> [])"

definition initial_conditions :: "options \<Rightarrow> conditions" where
  "initial_conditions opts =
     \<lparr>cond_element = (if requested (opt_element opts) then Some False else None),
      cond_text = (if requested (opt_text opts) then Some False else None),
      cond_url = (if requested (opt_url opts) then Some False else None),
      cond_networkIdle = (if opt_networkIdle opts \<noteq> None then Some False else None)\<rparr>"

text \<open>
  The element probe, written twice in the source (in the poll loop and in
  \<open>getActualState\<close>) with the same body: \<open>DOM.getDocument\<close>, then \<open>DOM.querySelector\<close>
  under the root, inside a \<open>try\<close> whose \<open>catch\<close> answers false.
\<close>

definition found_node :: "nat option \<Rightarrow> bool" where
  "found_node nodeId = (nodeId \<noteq> None \<and> nodeId \<noteq> Some 0)"

definition query_element :: "'w driver \<Rightarrow> string \<Rightarrow> 'w world \<Rightarrow> bool \<times> 'w world" where
  "query_element drv sel st =
     (case client_DOM_getDocument drv st of
        (Inl e, st1) \<Rightarrow> (False, st1)
      | (Inr rootId, st1) \<Rightarrow>
          (case client_DOM_querySelector drv rootId sel st1 of
             (Inl e, st2) \<Rightarrow> (False, st2)
           | (Inr nodeId, st2) \<Rightarrow> (found_node nodeId, st2)))"

definition check_element ::
  "'w driver \<Rightarrow> options \<Rightarrow> conditions \<Rightarrow> 'w world \<Rightarrow> conditions \<times> 'w world" where
  "check_element drv opts c st =
     (case opt_element opts of
        None \<Rightarrow> (c, st)
      | Some sel \<Rightarrow>
          if sel \<noteq> [] \<and> cond_element c \<noteq> Some True
          then (case query_element drv sel st of
                  (b, st1) \<Rightarrow> (c\<lparr>cond_element := Some b\<rparr>, st1))
          else (c, st))"

definition check_text ::
  "'w driver \<Rightarrow> options \<Rightarrow> conditions \<Rightarrow> 'w world \<Rightarrow> conditions settled \<times> 'w world" where
  "check_text drv opts c st =
     (case opt_text opts of
        None \<Rightarrow> (Inr c, st)
      | Some t \<Rightarrow>
          if t \<noteq> [] \<and> cond_text c \<noteq> Some True
          then (case client_Runtime_evaluate drv (TextIncludes t) st of
                  (Inl e, st1) \<Rightarrow> (Inl e, st1)
                | (Inr r, st1) \<Rightarrow>
                    (case exceptionDetails r of
                       Some d \<Rightarrow> (Inl (''Error: Script execution failed: '' @ d), st1)
                     | None \<Rightarrow>
                         (Inr (if truthy (result_value r) then c\<lparr>cond_text := Some True\<rparr> else c),
                          st1)))
          else (Inr c, st))"

definition check_url ::
  "'w driver \<Rightarrow> options \<Rightarrow> conditions \<Rightarrow> 'w world \<Rightarrow> conditions settled \<times> 'w world" where
  "check_url drv opts c st =
     (case opt_url opts of
        None \<Rightarrow> (Inr c, st)
      | Some u \<Rightarrow>
          if u \<noteq> [] \<and> cond_url c \<noteq> Some True
          then (case client_Runtime_evaluate drv LocationHref st of
                  (Inl e, st1) \<Rightarrow> (Inl e, st1)
                | (Inr r, st1) \<Rightarrow>
                    (case RegExp_new drv u of
                       Inl err \<Rightarrow> (Inl err, st1)
                     | Inr test \<Rightarrow>
                         (Inr (if test (js_to_string (result_value r))
                               then c\<lparr>cond_url := Some True\<rparr> else c),
                          st1)))
          else (Inr c, st))"

definition check_networkIdle :: "options \<Rightarrow> nat \<Rightarrow> conditions \<Rightarrow> 'w world \<Rightarrow> conditions" where
  "check_networkIdle opts lastNetworkActivity c st =
     (case opt_networkIdle opts of
        None \<Rightarrow> c
      | Some idle \<Rightarrow>
          if cond_networkIdle c \<noteq> Some True
          then (let idleTime = clock st - cells st lastNetworkActivity
                in if idleTime \<ge> idle then c\<lparr>cond_networkIdle := Some True\<rparr> else c)
          else c)"

definition allConditionsMet :: "conditions \<Rightarrow> bool" where
  "allConditionsMet c =
     list_all (\<lambda>v. v = None \<or> v = Some True)
       [cond_element c, cond_text c, cond_url c, cond_networkIdle c]"

definition actual_text ::
  "'w driver \<Rightarrow> options \<Rightarrow> 'w world \<Rightarrow> js_value settled \<times> 'w world" where
  "actual_text drv opts st =
     (case opt_text opts of
        None \<Rightarrow> (Inr (JBool False), st)
      | Some t \<Rightarrow>
          if t \<noteq> []
          then (case client_Runtime_evaluate drv (TextIncludes t) st of
                  (Inl e, st1) \<Rightarrow> (Inl e, st1)
                | (Inr r, st1) \<Rightarrow>
                    (Inr (if exceptionDetails r = None then result_value r else JBool False), st1))
          else (Inr (JBool False), st))"

definition actual_element :: "'w driver \<Rightarrow> options \<Rightarrow> 'w world \<Rightarrow> bool \<times> 'w world" where
  "actual_element drv opts st =
     (case opt_element opts of
        None \<Rightarrow> (False, st)
      | Some sel \<Rightarrow> if sel \<noteq> [] then query_element drv sel st else (False, st))"

definition getActualState ::
  "'w driver \<Rightarrow> options \<Rightarrow> 'w world \<Rightarrow> actual_state settled \<times> 'w world" where
  "getActualState drv opts st =
     (case client_Runtime_evaluate drv LocationHref st of
        (Inl e, st1) \<Rightarrow> (Inl e, st1)
      | (Inr urlResult, st1) \<Rightarrow>
          (case actual_element drv opts st1 of
             (found, st2) \<Rightarrow>
               (case actual_text drv opts st2 of
                  (Inl e, st3) \<Rightarrow> (Inl e, st3)
                | (Inr txt, st3) \<Rightarrow>
                    (Inr \<lparr>currentUrl = result_value urlResult,
                          elementFound = found,
                          textFound = txt\<rparr>, st3))))"

text \<open>One pass over the four probes, in the order of the loop body.\<close>

definition poll_once ::
  "'w driver \<Rightarrow> options \<Rightarrow> nat \<Rightarrow> conditions \<Rightarrow> 'w world \<Rightarrow> conditions settled \<times> 'w world" where
  "poll_once drv opts lastNetworkActivity c st =
     (case check_element drv opts c st of
        (c1, st1) \<Rightarrow>
          (case check_text drv opts c1 st1 of
             (Inl e, st2) \<Rightarrow> (Inl e, st2)
           | (Inr c2, st2) \<Rightarrow>
               (case check_url drv opts c2 st2 of
                  (Inl e, st3) \<Rightarrow> (Inl e, st3)
                | (Inr c3, st3) \<Rightarrow>
                    (Inr (check_networkIdle opts lastNetworkActivity c3 st3), st3))))"

text \<open>The two \<open>return\<close> statements: read the actual state, then build the outcome.\<close>

definition finish ::
  "'w driver \<Rightarrow> options \<Rightarrow> int \<Rightarrow> bool \<Rightarrow> conditions \<Rightarrow> 'w world
     \<Rightarrow> wait_outcome settled \<times> 'w world" where
  "finish drv opts startTime ok c st =
     (case getActualState drv opts st of
        (Inl e, st1) \<Rightarrow> (Inl e, st1)
      | (Inr a, st1) \<Rightarrow>
          (Inr \<lparr>success = ok, out_conditions = c, actualState = a,
                timeElapsed = clock st1 - startTime\<rparr>, st1))"



subsection \<open>What an operation leaves behind\<close>

text \<open>
  \<open>issued st st'\<close> are the protocol calls logged between two states. \<open>advances P st st'\<close>:
  time has not gone back, no handler was added or removed, no cell was allocated, and
  every call issued in between satisfies \<open>P\<close>.
\<close>

definition issued :: "'w world \<Rightarrow> 'w world \<Rightarrow> cdp_method list" where
  "issued st st' = drop (length (calls st)) (calls st')"

definition advances :: "(cdp_method \<Rightarrow> bool) \<Rightarrow> 'w world \<Rightarrow> 'w world \<Rightarrow> bool" where
  "advances P st st' =
     (clock st \<le> clock st' \<and> listeners st' = listeners st \<and> allocated st' = allocated st \<and>
      prefix (calls st) (calls st') \<and> list_all P (issued st st'))"

lemma advances_refl: "advances P st st"
  by (simp add: advances_def issued_def)

lemma issued_append:
  assumes "prefix (calls a) (calls b)" "prefix (calls b) (calls c)"
  shows "issued a c = issued a b @ issued b c"
proof -
  from assms obtain xs ys where "calls b = calls a @ xs" "calls c = calls b @ ys"
    by (auto simp: prefix_def)
  then show ?thesis by (simp add: issued_def)
qed

lemma advances_trans:
  assumes "advances P a b" "advances P b c"
  shows "advances P a c"
proof -
  have p1: "prefix (calls a) (calls b)" and p2: "prefix (calls b) (calls c)"
    using assms by (simp_all add: advances_def)
  have "issued a c = issued a b @ issued b c" by (rule issued_append [OF p1 p2])
  moreover have "prefix (calls a) (calls c)" using p1 p2 by (rule prefix_order.trans)
  ultimately show ?thesis using assms by (simp add: advances_def)
qed

lemma advances_mono: "advances P a b \<Longrightarrow> (\<And>m. P m \<Longrightarrow> Q m) \<Longrightarrow> advances Q a b"
  by (auto simp: advances_def list_all_iff)

lemma suspend_fields [simp]:
  "clock (suspend d evs w st) = clock st + int d"
  "calls (suspend d evs w st) = calls st"
  "listeners (suspend d evs w st) = listeners st"
  "allocated (suspend d evs w st) = allocated st"
  "outside (suspend d evs w st) = w"
  by (simp_all add: suspend_def)

lemma advances_await_call:
  "P m \<Longrightarrow> await_call drv m st = (r, st') \<Longrightarrow> advances P st st'"
  by (auto simp: await_call_def advances_def issued_def split: prod.splits)

lemma issued_await_call:
  "await_call drv m st = (r, st') \<Longrightarrow> calls st' = calls st @ [m]"
  by (auto simp: await_call_def split: prod.splits)

lemma advances_sleep: "advances P st (sleep drv d st)"
  by (auto simp: sleep_def advances_def issued_def split: prod.splits)

lemma clock_sleep: "clock st + int d \<le> clock (sleep drv d st)"
  by (auto simp: sleep_def split: prod.splits)

definition is_probe :: "cdp_method \<Rightarrow> bool" where
  "is_probe m = (m \<noteq> Network_enable \<and> m \<noteq> Network_disable)"

lemma advances_getDocument:
  "client_DOM_getDocument drv st = (r, st') \<Longrightarrow> advances is_probe st st'"
  by (auto simp: client_DOM_getDocument_def is_probe_def split: prod.splits option.splits
           intro: advances_await_call)

lemma advances_querySelector:
  "client_DOM_querySelector drv n sel st = (r, st') \<Longrightarrow> advances is_probe st st'"
  by (auto simp: client_DOM_querySelector_def is_probe_def split: prod.splits option.splits
           intro: advances_await_call)

lemma advances_evaluate:
  "client_Runtime_evaluate drv s st = (r, st') \<Longrightarrow> advances is_probe st st'"
  by (auto simp: client_Runtime_evaluate_def is_probe_def split: prod.splits option.splits
           intro: advances_await_call)

lemma advances_query_element:
  "query_element drv sel st = (b, st') \<Longrightarrow> advances is_probe st st'"
  by (auto simp: query_element_def split: prod.splits sum.splits
           intro: advances_trans advances_getDocument advances_querySelector)

lemma advances_check_element:
  "check_element drv opts c st = (c', st') \<Longrightarrow> advances is_probe st st'"
  by (auto simp: check_element_def advances_refl split: option.splits if_splits prod.splits
           intro: advances_query_element)

lemma advances_check_text:
  "check_text drv opts c st = (r, st') \<Longrightarrow> advances is_probe st st'"
  by (auto simp: check_text_def advances_refl split: option.splits if_splits prod.splits sum.splits
           intro: advances_evaluate)

lemma advances_check_url:
  "check_url drv opts c st = (r, st') \<Longrightarrow> advances is_probe st st'"
  by (auto simp: check_url_def advances_refl split: option.splits if_splits prod.splits sum.splits
           intro: advances_evaluate)

lemma advances_poll_once:
  "poll_once drv opts cell c st = (r, st') \<Longrightarrow> advances is_probe st st'"
  by (auto simp: poll_once_def split: prod.splits sum.splits)
     (blast intro: advances_trans advances_check_element advances_check_text advances_check_url)+

lemma advances_actual_element:
  "actual_element drv opts st = (b, st') \<Longrightarrow> advances is_probe st st'"
  by (auto simp: actual_element_def advances_refl split: option.splits if_splits
           intro: advances_query_element)

lemma advances_actual_text:
  "actual_text drv opts st = (r, st') \<Longrightarrow> advances is_probe st st'"
  by (auto simp: actual_text_def advances_refl split: option.splits if_splits prod.splits sum.splits
           intro: advances_evaluate)

lemma advances_getActualState:
  "getActualState drv opts st = (r, st') \<Longrightarrow> advances is_probe st st'"
  by (auto simp: getActualState_def split: prod.splits sum.splits)
     (blast intro: advances_trans advances_evaluate advances_actual_element advances_actual_text)+

lemma advances_finish:
  "finish drv opts t0 ok c st = (r, st') \<Longrightarrow> advances is_probe st st'"
  by (auto simp: finish_def split: prod.splits sum.splits intro: advances_getActualState)


subsection \<open>The poll loop and the call as a whole\<close>

function poll_loop ::
  "'w driver \<Rightarrow> options \<Rightarrow> int \<Rightarrow> int \<Rightarrow> nat \<Rightarrow> conditions \<Rightarrow> 'w world
     \<Rightarrow> wait_outcome settled \<times> 'w world" where
  "poll_loop drv opts startTime timeout lastNetworkActivity c st =
     (if clock st - startTime < timeout
      then (case poll_once drv opts lastNetworkActivity c st of
              (Inl e, st1) \<Rightarrow> (Inl e, st1)
            | (Inr c1, st1) \<Rightarrow>
                if allConditionsMet c1
                then finish drv opts startTime True c1 st1
                else poll_loop drv opts startTime timeout lastNetworkActivity c1
                       (sleep drv WAIT_CHECK_INTERVAL_MS st1))
      else finish drv opts startTime False c st)"
  by pat_completeness auto
termination
proof (relation "measure (\<lambda>(drv, opts, startTime, timeout, cell, c, st).
                    nat (startTime + timeout - clock st))", goal_cases)
  case 1
  show ?case by simp
next
  case (2 drv opts startTime timeout cell c st r st1 c1)
  have "poll_once drv opts cell c st = (Inr c1, st1)" using 2 by simp
  then have "clock st \<le> clock st1"
    using advances_poll_once by (fastforce simp: advances_def)
  moreover have "clock st1 + int WAIT_CHECK_INTERVAL_MS \<le> clock (sleep drv WAIT_CHECK_INTERVAL_MS st1)"
    by (rule clock_sleep)
  ultimately show ?case using 2 by (simp add: WAIT_CHECK_INTERVAL_MS_def)
qed

declare poll_loop.simps [simp del]

definition waitFor_try ::
  "'w driver \<Rightarrow> options \<Rightarrow> int \<Rightarrow> int \<Rightarrow> 'w world \<Rightarrow> wait_outcome settled \<times> 'w world" where
  "waitFor_try drv opts startTime timeout st =
     (case new_cell (clock st) st of
        (lastNetworkActivity, st1) \<Rightarrow>
          (case opt_networkIdle opts of
             None \<Rightarrow>
               poll_loop drv opts startTime timeout lastNetworkActivity
                 (initial_conditions opts) st1
           | Some idle \<Rightarrow>
               (case client_Network_enable drv st1 of
                  (Inl e, st2) \<Rightarrow> (Inl e, st2)
                | (Inr u, st2) \<Rightarrow>
                    poll_loop drv opts startTime timeout lastNetworkActivity
                      (initial_conditions opts)
                      (client_on LoadingFinished lastNetworkActivity
                         (client_on RequestWillBeSent lastNetworkActivity st2)))))"

definition waitFor_finally :: "'w driver \<Rightarrow> options \<Rightarrow> 'w world \<Rightarrow> 'w world" where
  "waitFor_finally drv opts st =
     (if opt_networkIdle opts \<noteq> None
      then (case client_Network_disable drv st of (r, st1) \<Rightarrow> st1)
      else st)"

definition waitFor ::
  "'w driver \<Rightarrow> options \<Rightarrow> 'w world \<Rightarrow> wait_outcome settled \<times> 'w world" where
  "waitFor drv opts st =
     (case waitFor_try drv opts (clock st) (effective_timeout opts) st of
        (Inl e, st1) \<Rightarrow>
          (Inl (''Error: Failed to wait for conditions: '' @ e), waitFor_finally drv opts st1)
      | (Inr outcome, st1) \<Rightarrow> (Inr outcome, waitFor_finally drv opts st1))"


subsection \<open>Properties of the whole call\<close>

lemma advances_poll_loop:
  "poll_loop drv opts t0 T cell c st = (r, st') \<Longrightarrow> advances is_probe st st'"
proof (induction drv opts t0 T cell c st arbitrary: r st' rule: poll_loop.induct)
  case (1 drv opts t0 T cell c st)
  show ?case
  proof (cases "clock st - t0 < T")
    case False
    with "1.prems" show ?thesis
      by (subst (asm) poll_loop.simps) (auto intro: advances_finish)
  next
    case True
    obtain r1 st1 where po: "poll_once drv opts cell c st = (r1, st1)" by fastforce
    have a1: "advances is_probe st st1" using po by (rule advances_poll_once)
    show ?thesis
    proof (cases r1)
      case (Inl e)
      with "1.prems" True po a1 show ?thesis
        by (subst (asm) poll_loop.simps) auto
    next
      case (Inr c1)
      show ?thesis
      proof (cases "allConditionsMet c1")
        case met: True
        with "1.prems" True po Inr have "finish drv opts t0 True c1 st1 = (r, st')"
          by (subst (asm) poll_loop.simps) auto
        then have "advances is_probe st1 st'" by (rule advances_finish)
        with a1 show ?thesis by (rule advances_trans)
      next
        case unmet: False
        let ?st2 = "sleep drv WAIT_CHECK_INTERVAL_MS st1"
        from "1.prems" True po Inr unmet
        have rec: "poll_loop drv opts t0 T cell c1 ?st2 = (r, st')"
          by (subst (asm) poll_loop.simps) auto
        have "advances is_probe ?st2 st'"
          using "1.IH" [OF True po [symmetric] Inr unmet rec] .
        moreover have "advances is_probe st1 ?st2" by (rule advances_sleep)
        ultimately show ?thesis using a1 by (blast intro: advances_trans)
      qed
    qed
  qed
qed

lemma advances_callsD:
  "advances P a b \<Longrightarrow> \<exists>xs. calls b = calls a @ xs \<and> list_all P xs"
  by (auto simp: advances_def issued_def prefix_def)

lemma new_cell_fields:
  "new_cell v st = (cell, st1) \<Longrightarrow>
     cell = allocated st \<and> calls st1 = calls st \<and> listeners st1 = listeners st \<and>
     clock st1 = clock st \<and> outside st1 = outside st"
  by (auto simp: new_cell_def)

lemma client_on_fields [simp]:
  "calls (client_on ev cell st) = calls st"
  "clock (client_on ev cell st) = clock st"
  "outside (client_on ev cell st) = outside st"
  "listeners (client_on ev cell st) = listeners st @ [(ev, cell)]"
  by (simp_all add: client_on_def)

lemma Network_enable_calls:
  "client_Network_enable drv st = (r, st') \<Longrightarrow>
     calls st' = calls st @ [Network_enable] \<and> listeners st' = listeners st"
  by (auto simp: client_Network_enable_def await_call_def split: prod.splits option.splits)

lemma Network_disable_calls:
  "client_Network_disable drv st = (r, st') \<Longrightarrow>
     calls st' = calls st @ [Network_disable] \<and> listeners st' = listeners st"
  by (auto simp: client_Network_disable_def await_call_def split: prod.splits option.splits)

lemma waitFor_try_calls:
  assumes "waitFor_try drv opts t0 T st = (r, st')"
  shows "\<exists>xs. calls st' =
                calls st @ (if opt_networkIdle opts = None then xs else Network_enable # xs) \<and>
              list_all is_probe xs"
proof -
  obtain cell st1 where nc: "new_cell (clock st) st = (cell, st1)" by fastforce
  have c1: "calls st1 = calls st" using new_cell_fields [OF nc] by simp
  show ?thesis
  proof (cases "opt_networkIdle opts")
    case None
    with assms nc have "poll_loop drv opts t0 T cell (initial_conditions opts) st1 = (r, st')"
      by (simp add: waitFor_try_def)
    from advances_callsD [OF advances_poll_loop [OF this]] c1 None show ?thesis
      by auto
  next
    case (Some idle)
    obtain r2 st2 where en: "client_Network_enable drv st1 = (r2, st2)" by fastforce
    have c2: "calls st2 = calls st @ [Network_enable]"
      using Network_enable_calls [OF en] c1 by simp
    show ?thesis
    proof (cases r2)
      case (Inl e)
      with assms nc Some en have "st' = st2" by (simp add: waitFor_try_def)
      with c2 Some have "calls st' =
          calls st @ (if opt_networkIdle opts = None then [] else Network_enable # []) \<and>
          list_all is_probe []" by simp
      then show ?thesis by blast
    next
      case (Inr u)
      let ?st3 = "client_on LoadingFinished cell (client_on RequestWillBeSent cell st2)"
      from assms nc Some en Inr
      have "poll_loop drv opts t0 T cell (initial_conditions opts) ?st3 = (r, st')"
        by (simp add: waitFor_try_def)
      from advances_callsD [OF advances_poll_loop [OF this]] c2 Some show ?thesis
        by auto
    qed
  qed
qed

lemma waitFor_state:
  "snd (waitFor drv opts st) =
     waitFor_finally drv opts (snd (waitFor_try drv opts (clock st) (effective_timeout opts) st))"
  by (simp add: waitFor_def split: prod.splits sum.splits)

text \<open>
  C1. A call to \<open>waitFor\<close> whose options include \<open>networkIdle\<close> issues \<open>Network.enable\<close>
  first, then nothing but probes (DOM queries and script evaluations), and
  \<open>Network.disable\<close> as its very last protocol call: exactly once, after everything else,
  whatever the way it returns (success, timeout or exception: the statement holds for every
  driver and every result). A call without \<open>networkIdle\<close> issues probes only, so it never
  invokes \<open>Network.disable\<close>. The calls logged before are kept.
\<close>

theorem waitFor_disables_network_exactly_once:
  "prefix (calls st) (calls (snd (waitFor drv opts st))) \<and>
   count_list (issued st (snd (waitFor drv opts st))) Network_disable =
     (if opt_networkIdle opts = None then 0 else 1) \<and>
   issued st (snd (waitFor drv opts st)) =
     (if opt_networkIdle opts = None
      then filter is_probe (issued st (snd (waitFor drv opts st)))
      else [Network_enable] @ filter is_probe (issued st (snd (waitFor drv opts st))) @
           [Network_disable])"
proof -
  obtain r st1 where tr: "waitFor_try drv opts (clock st) (effective_timeout opts) st = (r, st1)"
    by fastforce
  from waitFor_try_calls [OF tr] obtain xs
    where xs: "calls st1 =
                 calls st @ (if opt_networkIdle opts = None then xs else Network_enable # xs)"
      and probes: "list_all is_probe xs" by blast
  have keep: "filter is_probe xs = xs" using probes by (simp add: list_all_iff)
  have none: "count_list xs Network_disable = 0"
    using probes by (auto simp: list_all_iff is_probe_def)
  have st': "snd (waitFor drv opts st) = waitFor_finally drv opts st1"
    by (simp add: waitFor_state tr)
  show ?thesis
  proof (cases "opt_networkIdle opts")
    case None
    then have "waitFor_finally drv opts st1 = st1" by (simp add: waitFor_finally_def)
    with st' xs None have "issued st (snd (waitFor drv opts st)) = xs"
      and "calls (snd (waitFor drv opts st)) = calls st @ xs"
      by (simp_all add: issued_def)
    with None keep none show ?thesis by simp
  next
    case (Some idle)
    obtain r2 st2 where d: "client_Network_disable drv st1 = (r2, st2)" by fastforce
    then have "waitFor_finally drv opts st1 = st2" using Some by (simp add: waitFor_finally_def)
    moreover have "calls st2 = calls st @ Network_enable # xs @ [Network_disable]"
      using Network_disable_calls [OF d] xs Some by simp
    ultimately have "issued st (snd (waitFor drv opts st)) =
        Network_enable # xs @ [Network_disable]"
      and "calls (snd (waitFor drv opts st)) = calls st @ Network_enable # xs @ [Network_disable]"
      using st' by (simp_all add: issued_def)
    with Some keep none show ?thesis by (simp add: is_probe_def)
  qed
qed

lemma advances_listenersD:
  "advances P a b \<Longrightarrow> listeners b = listeners a \<and> allocated b = allocated a"
  by (simp add: advances_def)

lemma new_cell_allocated:
  "new_cell v st = (cell, st1) \<Longrightarrow> allocated st1 = Suc (allocated st)"
  by (auto simp: new_cell_def)

lemma client_on_allocated [simp]: "allocated (client_on ev cell st) = allocated st"
  by (simp add: client_on_def)

lemma Network_enable_result:
  "client_Network_enable drv st = (r, st') \<Longrightarrow>
     (r = Inr ()) = (fst (transport drv Network_enable (outside st)) = None) \<and>
     allocated st' = allocated st"
  by (auto simp: client_Network_enable_def await_call_def split: prod.splits option.splits)

lemma Network_disable_allocated:
  "client_Network_disable drv st = (r, st') \<Longrightarrow> allocated st' = allocated st"
  by (auto simp: client_Network_disable_def await_call_def split: prod.splits option.splits)

lemma waitFor_finally_listeners:
  "listeners (waitFor_finally drv opts st) = listeners st \<and>
   allocated (waitFor_finally drv opts st) = allocated st"
  by (auto simp: waitFor_finally_def split: prod.splits
           dest: Network_disable_calls Network_disable_allocated)

lemma waitFor_try_listeners:
  assumes "waitFor_try drv opts t0 T st = (r, st')"
  shows "listeners st' = listeners st @
           (if opt_networkIdle opts \<noteq> None \<and> fst (transport drv Network_enable (outside st)) = None
            then [(RequestWillBeSent, allocated st), (LoadingFinished, allocated st)] else []) \<and>
         allocated st' = Suc (allocated st)"
proof -
  obtain cell st1 where nc: "new_cell (clock st) st = (cell, st1)" by fastforce
  note f1 = new_cell_fields [OF nc] new_cell_allocated [OF nc]
  show ?thesis
  proof (cases "opt_networkIdle opts")
    case None
    with assms nc have "poll_loop drv opts t0 T cell (initial_conditions opts) st1 = (r, st')"
      by (simp add: waitFor_try_def)
    from advances_listenersD [OF advances_poll_loop [OF this]] f1 None show ?thesis by simp
  next
    case (Some idle)
    obtain r2 st2 where en: "client_Network_enable drv st1 = (r2, st2)" by fastforce
    note f2 = Network_enable_calls [OF en] Network_enable_result [OF en]
    show ?thesis
    proof (cases r2)
      case (Inl e)
      with assms nc Some en have "st' = st2" by (simp add: waitFor_try_def)
      with f1 f2 Inl Some show ?thesis by auto
    next
      case (Inr u)
      let ?st3 = "client_on LoadingFinished cell (client_on RequestWillBeSent cell st2)"
      from assms nc Some en Inr
      have "poll_loop drv opts t0 T cell (initial_conditions opts) ?st3 = (r, st')"
        by (simp add: waitFor_try_def)
      from advances_listenersD [OF advances_poll_loop [OF this]] f1 f2 Inr Some show ?thesis
        by auto
    qed
  qed
qed

text \<open>
  C9 (as amended). A call to \<open>waitFor\<close> with \<open>networkIdle\<close> whose \<open>Network.enable\<close> resolves
  adds exactly two handlers to the client, one for \<open>requestWillBeSent\<close> and one for
  \<open>loadingFinished\<close>, both writing to a variable allocated for this call; when
  \<open>Network.enable\<close> rejects, or without \<open>networkIdle\<close>, it adds none. No handler registered
  before the call is removed and the new ones are still registered when the call has
  returned: the cleanup only calls \<open>Network.disable\<close>.
\<close>

theorem waitFor_registers_handlers_and_keeps_them:
  "listeners (snd (waitFor drv opts st)) =
     listeners st @
       (if opt_networkIdle opts \<noteq> None \<and> fst (transport drv Network_enable (outside st)) = None
        then [(RequestWillBeSent, allocated st), (LoadingFinished, allocated st)]
        else []) \<and>
   allocated (snd (waitFor drv opts st)) = Suc (allocated st)"
proof -
  obtain r st1 where tr: "waitFor_try drv opts (clock st) (effective_timeout opts) st = (r, st1)"
    by fastforce
  have "snd (waitFor drv opts st) = waitFor_finally drv opts st1"
    by (simp add: waitFor_state tr)
  then show ?thesis
    using waitFor_try_listeners [OF tr] waitFor_finally_listeners [of drv opts st1] by simp
qed


subsection \<open>Concrete drivers for running the model\<close>

text \<open>
  A driver whose outside world is the number of suspensions so far. Every protocol call
  takes one millisecond, timers fire on time, no network event arrives. \<open>failing\<close> says
  which calls reject, \<open>node\<close> what \<open>DOM.querySelector\<close> finds and \<open>pg\<close> what the page
  looks like, each as a function of that number. The regular-expression engine of this
  driver only knows literal patterns.
\<close>

definition scripted ::
  "(cdp_method \<Rightarrow> nat \<Rightarrow> string option) \<Rightarrow> (nat \<Rightarrow> nat option) \<Rightarrow> (nat \<Rightarrow> page) \<Rightarrow> nat driver" where
  "scripted failing node pg =
     \<lparr>transport = (\<lambda>m w. (failing m w, 1, [], Suc w)),
      timer = (\<lambda>d w. (0, [], Suc w)),
      dom_root = (\<lambda>w. 1),
      dom_query = (\<lambda>w rootId sel. node w),
      page_of = pg,
      RegExp_new = (\<lambda>u. Inr (\<lambda>s. js_includes s u))\<rparr>"

definition page_with_text :: "string \<Rightarrow> page" where
  "page_with_text body =
     \<lparr>page_href = ''http://localhost/'',
      page_innerText = Some body,
      page_querySelector = (\<lambda>sel. Inr None)\<rparr>"

definition fresh_world :: "nat world" where
  "fresh_world =
     \<lparr>clock = 0, outside = 0, calls = [], listeners = [], cells = (\<lambda>c. 0), allocated = 0\<rparr>"

definition no_options :: options where
  "no_options =
     \<lparr>opt_element = None, opt_text = None, opt_url = None, opt_networkIdle = None,
      opt_timeout = None\<rparr>"

lemmas client_defs =
  client_Network_enable_def client_Network_disable_def client_DOM_getDocument_def
  client_DOM_querySelector_def client_Runtime_evaluate_def client_on_def new_cell_def
  await_call_def sleep_def suspend_def deliver_def fire_def

lemmas waitFor_defs =
  waitFor_def waitFor_try_def waitFor_finally_def finish_def getActualState_def
  actual_element_def actual_text_def poll_once_def check_element_def check_text_def
  check_url_def check_networkIdle_def query_element_def found_node_def allConditionsMet_def
  initial_conditions_def requested_def effective_timeout_def
  DEFAULT_WAIT_TIMEOUT_MS_def MAX_WAIT_TIMEOUT_MS_def WAIT_CHECK_INTERVAL_MS_def

definition network_down :: "cdp_method \<Rightarrow> nat \<Rightarrow> string option" where
  "network_down m w = (if m = Network_enable then Some ''WebSocket is not open'' else None)"

text \<open>
  C9, counterexample to the claim as stated: with \<open>networkIdle\<close> requested and a client
  whose \<open>Network.enable\<close> rejects, the call registers no handler at all.
\<close>

theorem waitFor_registers_nothing_when_enable_rejects:
  "opt_networkIdle (no_options\<lparr>opt_networkIdle := Some 500\<rparr>) \<noteq> None \<and>
   listeners (snd (waitFor (scripted network_down (\<lambda>w. None) (\<lambda>w. page_with_text []))
                           (no_options\<lparr>opt_networkIdle := Some 500\<rparr>) fresh_world))
     = listeners fresh_world"
  by (simp add: waitFor_defs client_defs scripted_def network_down_def fresh_world_def
        no_options_def)

subsection \<open>Flags only ever go up\<close>


definition stays :: "bool option \<Rightarrow> bool option \<Rightarrow> bool" where
  "stays a b = (a \<noteq> Some True \<or> b = Some True)"

definition latched :: "conditions \<Rightarrow> conditions \<Rightarrow> bool" where
  "latched c c' =
     (stays (cond_element c) (cond_element c') \<and>
      stays (cond_text c) (cond_text c') \<and>
      stays (cond_url c) (cond_url c') \<and>
      stays (cond_networkIdle c) (cond_networkIdle c'))"

lemma latched_refl: "latched c c"
  by (auto simp: latched_def stays_def)

lemma latched_trans: "latched a b \<Longrightarrow> latched b c \<Longrightarrow> latched a c"
  by (auto simp: latched_def stays_def)


lemma check_element_latched:
  "check_element drv opts c st = (c', st') \<Longrightarrow> latched c c'"
  by (auto simp: check_element_def latched_def stays_def
           split: option.splits if_splits prod.splits)

lemma check_text_latched:
  "check_text drv opts c st = (Inr c', st') \<Longrightarrow> latched c c'"
  by (auto simp: check_text_def latched_def stays_def
           split: option.splits if_splits prod.splits sum.splits)

lemma check_url_latched:
  "check_url drv opts c st = (Inr c', st') \<Longrightarrow> latched c c'"
  by (auto simp: check_url_def latched_def stays_def
           split: option.splits if_splits prod.splits sum.splits)

lemma check_networkIdle_latched: "latched c (check_networkIdle opts cell c st)"
  by (auto simp: check_networkIdle_def latched_def stays_def Let_def split: option.splits)





lemma poll_once_Inr:
  assumes "poll_once drv opts cell c st = (Inr c', st')"
  obtains c1 st1 c2 st2 c3 where
    "check_element drv opts c st = (c1, st1)"
    "check_text drv opts c1 st1 = (Inr c2, st2)"
    "check_url drv opts c2 st2 = (Inr c3, st')"
    "c' = check_networkIdle opts cell c3 st'"
  using assms by (auto simp: poll_once_def split: prod.splits sum.splits)

lemma poll_once_latched:
  assumes "poll_once drv opts cell c st = (Inr c', st')"
  shows "latched c c'"
proof -
  from assms obtain c1 st1 c2 st2 c3 where
    e: "check_element drv opts c st = (c1, st1)" and
    t: "check_text drv opts c1 st1 = (Inr c2, st2)" and
    u: "check_url drv opts c2 st2 = (Inr c3, st')" and
    c': "c' = check_networkIdle opts cell c3 st'"
    by (rule poll_once_Inr)
  have "latched c c1" using e by (rule check_element_latched)
  moreover have "latched c1 c2" using t by (rule check_text_latched)
  moreover have "latched c2 c3" using u by (rule check_url_latched)
  moreover have "latched c3 c'" unfolding c' by (rule check_networkIdle_latched)
  ultimately show ?thesis by (blast intro: latched_trans)
qed


lemma finish_outcome:
  "finish drv opts t0 ok c st = (Inr out, st') \<Longrightarrow> success out = ok \<and> out_conditions out = c"
  by (auto simp: finish_def split: prod.splits sum.splits)

lemma poll_loop_Inr_cases:
  assumes "poll_loop drv opts t0 T cell c st = (Inr out, st')"
  obtains
    (timeout) "\<not> clock st - t0 < T" "finish drv opts t0 False c st = (Inr out, st')"
  | (met) c1 st1 where "clock st - t0 < T" "poll_once drv opts cell c st = (Inr c1, st1)"
      "allConditionsMet c1" "finish drv opts t0 True c1 st1 = (Inr out, st')"
  | (again) c1 st1 where "clock st - t0 < T" "poll_once drv opts cell c st = (Inr c1, st1)"
      "\<not> allConditionsMet c1"
      "poll_loop drv opts t0 T cell c1 (sleep drv WAIT_CHECK_INTERVAL_MS st1) = (Inr out, st')"
  using assms
  by (subst (asm) poll_loop.simps) (auto split: if_splits prod.splits sum.splits)

lemma poll_loop_latched:
  "poll_loop drv opts t0 T cell c st = (Inr out, st') \<Longrightarrow> latched c (out_conditions out)"
proof (induction drv opts t0 T cell c st arbitrary: out st' rule: poll_loop.induct)
  case (1 drv opts t0 T cell c st)
  from "1.prems" show ?case
  proof (cases rule: poll_loop_Inr_cases)
    case timeout
    then show ?thesis using finish_outcome by (fastforce simp: latched_refl)
  next
    case (met c1 st1)
    then show ?thesis using finish_outcome poll_once_latched by fastforce
  next
    case (again c1 st1)
    have "latched c1 (out_conditions out)"
      using "1.IH" [OF again(1) again(2) [symmetric] refl again(3) again(4)] .
    moreover have "latched c c1" using again(2) by (rule poll_once_latched)
    ultimately show ?thesis by (blast intro: latched_trans)
  qed
qed



subsection \<open>Success and the requested conditions\<close>

definition always_up :: "cdp_method \<Rightarrow> nat \<Rightarrow> string option" where
  "always_up m w = None"

definition nothing_found :: "nat \<Rightarrow> nat option" where
  "nothing_found w = Some 0"

definition saved_page :: "nat driver" where
  "saved_page = scripted always_up nothing_found (\<lambda>w. page_with_text ''Successfully Saved'')"

definition url_only :: actual_state where
  "url_only =
     \<lparr>currentUrl = JString ''http://localhost/'', elementFound = False,
      textFound = JBool False\<rparr>"

definition nothing_asked :: conditions where
  "nothing_asked =
     \<lparr>cond_element = None, cond_text = None, cond_url = None, cond_networkIdle = None\<rparr>"

lemmas run_defs =
  waitFor_defs client_defs scripted_def saved_page_def always_up_def nothing_found_def
  page_with_text_def fresh_world_def no_options_def url_only_def nothing_asked_def

lemma waitFor_result:
  "fst (waitFor drv opts st) = Inr out \<longleftrightarrow>
   fst (waitFor_try drv opts (clock st) (effective_timeout opts) st) = Inr out"
  by (auto simp: waitFor_def split: prod.splits sum.splits)

lemma waitFor_rethrows:
  "fst (waitFor_try drv opts (clock st) (effective_timeout opts) st) = Inl e \<Longrightarrow>
     fst (waitFor drv opts st) = Inl (''Error: Failed to wait for conditions: '' @ e)"
  by (auto simp: waitFor_def split: prod.splits sum.splits)

lemma effective_timeout_positive:
  "(case opt_timeout opts of None \<Rightarrow> True | Some t \<Rightarrow> 0 \<le> t) \<Longrightarrow> 0 < effective_timeout opts"
  by (auto simp: effective_timeout_def DEFAULT_WAIT_TIMEOUT_MS_def MAX_WAIT_TIMEOUT_MS_def
           split: option.splits)










text \<open>
  \<open>ValidationService.validateTimeout\<close>, which \<open>ChromeController.waitFor\<close> runs on
  \<open>options.timeout\<close> before it delegates to \<open>WaitService.waitFor\<close>: an absent timeout
  passes, a timeout below 0 or above 30000 throws. The error carries the name of the field
  and the value it was given. Timeouts are whole numbers of milliseconds here, as in
  \<open>options\<close>, so the branch for a value that is not a number does not arise.
\<close>

datatype validation_error = INVALID_TIMEOUT string int

definition validateTimeout :: "int option \<Rightarrow> string \<Rightarrow> validation_error + unit" where
  "validateTimeout timeout fieldName =
     (case timeout of
        None \<Rightarrow> Inr ()
      | Some t \<Rightarrow> if t < 0 \<or> t > 30000 then Inl (INVALID_TIMEOUT fieldName t) else Inr ())"








text \<open>
  \<open>WaitService.waitFor\<close> does not validate the timeout itself. Were it handed a negative
  timeout, which the controller refuses, the loop body would never run and the call would
  report \<open>success = False\<close> with no condition requested.
\<close>

lemma waitFor_unvalidated_negative_timeout:
  "validateTimeout (Some (- 1)) ''timeout'' = Inl (INVALID_TIMEOUT ''timeout'' (- 1)) \<and>
   fst (waitFor saved_page (no_options\<lparr>opt_timeout := Some (- 1)\<rparr>) fresh_world) =
     Inr \<lparr>success = False, out_conditions = nothing_asked, actualState = url_only,
          timeElapsed = 1\<rparr>"
  by (simp add: validateTimeout_def run_defs poll_loop.simps)

subsection \<open>Latching\<close>

definition vanishing :: "nat \<Rightarrow> nat option" where
  "vanishing w = (if w \<le> 2 then Some 7 else Some 0)"

definition vanishing_element :: "nat driver" where
  "vanishing_element = scripted always_up vanishing (\<lambda>w. page_with_text [])"

lemma vanishing_run:
  "fst (waitFor vanishing_element (no_options\<lparr>opt_element := Some ''#btn''\<rparr>) fresh_world) =
     Inr \<lparr>success = True,
          out_conditions = nothing_asked\<lparr>cond_element := Some True\<rparr>,
          actualState = url_only,
          timeElapsed = 5\<rparr>"
  by (simp add: run_defs poll_loop.simps vanishing_element_def vanishing_def)

lemma check_skipped:
  "cond_element c = Some True \<Longrightarrow> check_element drv opts c st = (c, st)"
  "cond_text c = Some True \<Longrightarrow> check_text drv opts c st = (Inr c, st)"
  "cond_url c = Some True \<Longrightarrow> check_url drv opts c st = (Inr c, st)"
  "cond_networkIdle c = Some True \<Longrightarrow> check_networkIdle opts cell c st = c"
  by (simp_all add: check_element_def check_text_def check_url_def check_networkIdle_def
        split: option.splits)

text \<open>
  C10. Within one call every condition flag is latched. A check whose flag is already true
  issues no probe and changes nothing; one pass over the checks, and the loop as a whole,
  never turn a true flag into anything else. So the outcome can report success on a
  latched flag that no longer holds: in the run below the element is found by the first
  poll and is gone when the actual state is read, and the outcome has \<open>success = True\<close>,
  the element flag true and \<open>elementFound = False\<close>.
\<close>

theorem waitFor_flags_are_latched:
  "(cond_element c = Some True \<longrightarrow> check_element drv opts c st = (c, st)) \<and>
   (cond_text c = Some True \<longrightarrow> check_text drv opts c st = (Inr c, st)) \<and>
   (cond_url c = Some True \<longrightarrow> check_url drv opts c st = (Inr c, st)) \<and>
   (cond_networkIdle c = Some True \<longrightarrow> check_networkIdle opts cell c st = c) \<and>
   (poll_once drv opts cell c st = (Inr c1, st1) \<longrightarrow> latched c c1) \<and>
   (poll_loop drv opts t0 T cell c st = (Inr out, st') \<longrightarrow> latched c (out_conditions out)) \<and>
   fst (waitFor vanishing_element (no_options\<lparr>opt_element := Some ''#btn''\<rparr>) fresh_world) =
     Inr \<lparr>success = True,
          out_conditions = nothing_asked\<lparr>cond_element := Some True\<rparr>,
          actualState = url_only,
          timeElapsed = 5\<rparr>"
proof (intro conjI impI)
  show "fst (waitFor vanishing_element (no_options\<lparr>opt_element := Some ''#btn''\<rparr>) fresh_world) =
     Inr \<lparr>success = True,
          out_conditions = nothing_asked\<lparr>cond_element := Some True\<rparr>,
          actualState = url_only,
          timeElapsed = 5\<rparr>"
    by (rule vanishing_run)
qed (simp_all add: check_skipped poll_once_latched poll_loop_latched)


definition everything_asked :: options where
  "everything_asked =
     \<lparr>opt_element = Some ''#btn'', opt_text = Some ''Saved'', opt_url = Some ''localhost'',
      opt_networkIdle = Some 0, opt_timeout = None\<rparr>"

definition all_true :: conditions where
  "all_true =
     \<lparr>cond_element = Some True, cond_text = Some True, cond_url = Some True,
      cond_networkIdle = Some True\<rparr>"

theorem waitFor_flags_are_latched_witness:
  "cond_element all_true = Some True \<and> cond_text all_true = Some True \<and>
   cond_url all_true = Some True \<and> cond_networkIdle all_true = Some True \<and>
   check_element saved_page everything_asked all_true fresh_world = (all_true, fresh_world) \<and>
   check_text saved_page everything_asked all_true fresh_world = (Inr all_true, fresh_world) \<and>
   check_url saved_page everything_asked all_true fresh_world = (Inr all_true, fresh_world) \<and>
   check_networkIdle everything_asked 0 all_true fresh_world = all_true \<and>
   poll_once saved_page everything_asked 0 all_true fresh_world = (Inr all_true, fresh_world) \<and>
   fst (poll_loop saved_page everything_asked 0 5000 0 all_true fresh_world) =
     Inr \<lparr>success = True, out_conditions = all_true,
          actualState = url_only\<lparr>textFound := JBool True\<rparr>, timeElapsed = 4\<rparr> \<and>
   latched all_true all_true"
proof -
  let ?out = "\<lparr>success = True, out_conditions = all_true,
                 actualState = url_only\<lparr>textFound := JBool True\<rparr>, timeElapsed = 4\<rparr>"
  let ?run = "poll_loop saved_page everything_asked 0 5000 0 all_true fresh_world"
  have flags: "cond_element all_true = Some True" "cond_text all_true = Some True"
      "cond_url all_true = Some True" "cond_networkIdle all_true = Some True"
    by (simp_all add: all_true_def)
  have once: "poll_once saved_page everything_asked 0 all_true fresh_world
                = (Inr all_true, fresh_world)"
    by (simp add: run_defs all_true_def everything_asked_def)
  have result: "fst ?run = Inr ?out"
    by (simp add: run_defs poll_loop.simps all_true_def everything_asked_def)
  then have loop: "?run = (Inr ?out, snd ?run)"
    by (metis prod.collapse)
  from waitFor_flags_are_latched
         [of all_true saved_page everything_asked fresh_world 0 all_true fresh_world 0 5000
             ?out "snd ?run"]
       flags once loop
  show ?thesis by (simp add: result)
qed


subsection \<open>The text condition\<close>

lemma js_includes_sublist: "js_includes body t = sublist t body"
  by (induction body) (auto simp: sublist_Cons_right)

lemma evaluate_resolves:
  assumes "fst (transport drv (Runtime_evaluate s) (outside st)) = None"
  shows "\<exists>st'. client_Runtime_evaluate drv s st =
                 (Inr (run_script (page_of drv (outside st')) s), st') \<and>
               calls st' = calls st @ [Runtime_evaluate s]"
  using assms
  by (auto simp: client_Runtime_evaluate_def await_call_def split: prod.splits)

lemma run_script_text_found:
  "page_innerText p = Some body \<Longrightarrow> js_includes body t \<Longrightarrow>
     run_script p (TextIncludes t) = \<lparr>exceptionDetails = None, result_value = JBool True\<rparr>"
  by simp

definition text_shown :: "'w driver \<Rightarrow> string \<Rightarrow> bool" where
  "text_shown drv t =
     (\<forall>w. case page_innerText (page_of drv w) of None \<Rightarrow> False | Some body \<Rightarrow> js_includes body t)"

definition evaluate_resolving :: "'w driver \<Rightarrow> bool" where
  "evaluate_resolving drv = (\<forall>s w. fst (transport drv (Runtime_evaluate s) w) = None)"

lemma evaluate_text_found:
  assumes "evaluate_resolving drv" "text_shown drv t"
  shows "\<exists>st'. client_Runtime_evaluate drv (TextIncludes t) st =
                 (Inr \<lparr>exceptionDetails = None, result_value = JBool True\<rparr>, st') \<and>
               calls st' = calls st @ [Runtime_evaluate (TextIncludes t)]"
proof -
  have "fst (transport drv (Runtime_evaluate (TextIncludes t)) (outside st)) = None"
    using assms(1) by (simp add: evaluate_resolving_def)
  from evaluate_resolves [OF this] obtain st' where
    e: "client_Runtime_evaluate drv (TextIncludes t) st =
          (Inr (run_script (page_of drv (outside st')) (TextIncludes t)), st')"
    and c: "calls st' = calls st @ [Runtime_evaluate (TextIncludes t)]" by blast
  from assms(2) obtain body where
    "page_innerText (page_of drv (outside st')) = Some body" "js_includes body t"
    by (auto simp: text_shown_def split: option.splits dest: spec [of _ "outside st'"])
  then have "run_script (page_of drv (outside st')) (TextIncludes t) =
               \<lparr>exceptionDetails = None, result_value = JBool True\<rparr>"
    by (rule run_script_text_found)
  with e c show ?thesis by auto
qed

lemma evaluate_href:
  assumes "evaluate_resolving drv"
  shows "\<exists>st' r. client_Runtime_evaluate drv LocationHref st = (Inr r, st') \<and>
               calls st' = calls st @ [Runtime_evaluate LocationHref]"
proof -
  have "fst (transport drv (Runtime_evaluate LocationHref) (outside st)) = None"
    using assms by (simp add: evaluate_resolving_def)
  from evaluate_resolves [OF this] show ?thesis by blast
qed

lemma waitFor_text_shown:
  assumes wanted: "opt_text opts = Some t" "t \<noteq> []"
    and only: "\<not> requested (opt_element opts)" "\<not> requested (opt_url opts)"
      "opt_networkIdle opts = None"
    and timeout: "case opt_timeout opts of None \<Rightarrow> True | Some ms \<Rightarrow> 0 \<le> ms"
    and up: "evaluate_resolving drv"
    and shown: "text_shown drv t"
  shows "\<exists>out. fst (waitFor drv opts st) = Inr out \<and> success out \<and>
           cond_text (out_conditions out) = Some True \<and>
           textFound (actualState out) = JBool True \<and>
           issued st (snd (waitFor drv opts st)) =
             [Runtime_evaluate (TextIncludes t), Runtime_evaluate LocationHref,
              Runtime_evaluate (TextIncludes t)]"
proof -
  let ?T = "effective_timeout opts"
  let ?c0 = "initial_conditions opts"
  let ?c1 = "?c0\<lparr>cond_text := Some True\<rparr>"
  obtain cell st1 where nc: "new_cell (clock st) st = (cell, st1)" by fastforce
  note f1 = new_cell_fields [OF nc]
  have T: "clock st1 - clock st < ?T"
    using effective_timeout_positive [OF timeout] f1 by simp
  have c0: "cond_text ?c0 = Some False"
    by (simp add: initial_conditions_def requested_def wanted)
  have met: "allConditionsMet ?c1"
    by (simp add: allConditionsMet_def initial_conditions_def only)
  from evaluate_text_found [OF up shown, of st1] obtain st2 where
    e2: "client_Runtime_evaluate drv (TextIncludes t) st1 =
          (Inr \<lparr>exceptionDetails = None, result_value = JBool True\<rparr>, st2)"
    and k2: "calls st2 = calls st1 @ [Runtime_evaluate (TextIncludes t)]" by blast
  from evaluate_href [OF up, of st2] obtain st3 r3 where
    e3: "client_Runtime_evaluate drv LocationHref st2 = (Inr r3, st3)"
    and k3: "calls st3 = calls st2 @ [Runtime_evaluate LocationHref]" by blast
  from evaluate_text_found [OF up shown, of st3] obtain st4 where
    e4: "client_Runtime_evaluate drv (TextIncludes t) st3 =
          (Inr \<lparr>exceptionDetails = None, result_value = JBool True\<rparr>, st4)"
    and k4: "calls st4 = calls st3 @ [Runtime_evaluate (TextIncludes t)]" by blast
  have ce: "check_element drv opts ?c0 st1 = (?c0, st1)"
    using only(1) by (simp add: check_element_def requested_def split: option.splits)
  have ct: "check_text drv opts ?c0 st1 = (Inr ?c1, st2)"
    by (simp add: check_text_def wanted c0 e2)
  have cu: "check_url drv opts ?c1 st2 = (Inr ?c1, st2)"
    using only(2) by (simp add: check_url_def requested_def split: option.splits)
  have cn: "check_networkIdle opts cell ?c1 st2 = ?c1"
    by (simp add: check_networkIdle_def only(3))
  have po: "poll_once drv opts cell ?c0 st1 = (Inr ?c1, st2)"
    by (simp add: poll_once_def ce ct cu cn)
  have ae: "actual_element drv opts st3 = (False, st3)"
    using only(1) by (simp add: actual_element_def requested_def split: option.splits)
  have at: "actual_text drv opts st3 = (Inr (JBool True), st4)"
    by (simp add: actual_text_def wanted e4)
  let ?a = "\<lparr>currentUrl = result_value r3, elementFound = False, textFound = JBool True\<rparr>"
  let ?out = "\<lparr>success = True, out_conditions = ?c1, actualState = ?a,
                 timeElapsed = clock st4 - clock st\<rparr>"
  have ga: "getActualState drv opts st2 = (Inr ?a, st4)"
    by (simp add: getActualState_def e3 ae at)
  have "poll_loop drv opts (clock st) ?T cell ?c0 st1 = finish drv opts (clock st) True ?c1 st2"
    by (subst poll_loop.simps) (simp add: T met po)
  also have "\<dots> = (Inr ?out, st4)"
    by (simp add: finish_def ga)
  finally have "waitFor_try drv opts (clock st) ?T st = (Inr ?out, st4)"
    using nc only(3) by (simp add: waitFor_try_def)
  then have "waitFor drv opts st = (Inr ?out, st4)"
    using only(3) by (simp add: waitFor_def waitFor_finally_def)
  moreover have "calls st4 = calls st @ [Runtime_evaluate (TextIncludes t),
      Runtime_evaluate LocationHref, Runtime_evaluate (TextIncludes t)]"
    using k2 k3 k4 f1 by simp
  ultimately show ?thesis by (simp add: issued_def)
qed


subsection \<open>Calls that return an outcome\<close>

definition scripts_reliable :: "'w driver \<Rightarrow> options \<Rightarrow> bool" where
  "scripts_reliable drv opts =
     (evaluate_resolving drv \<and>
      (\<forall>w. fst (transport drv Network_enable w) = None) \<and>
      (\<forall>w. page_innerText (page_of drv w) \<noteq> None) \<and>
      (case opt_url opts of None \<Rightarrow> True | Some u \<Rightarrow> \<not> isl (RegExp_new drv u)))"

lemma evaluate_resolving_Inr:
  assumes "evaluate_resolving drv"
  shows "\<exists>r st'. client_Runtime_evaluate drv s st = (Inr r, st')"
proof -
  have "fst (transport drv (Runtime_evaluate s) (outside st)) = None"
    using assms by (simp add: evaluate_resolving_def)
  from evaluate_resolves [OF this] show ?thesis by blast
qed

lemma evaluate_text_no_exception:
  assumes "scripts_reliable drv opts"
  shows "\<exists>r st'. client_Runtime_evaluate drv (TextIncludes t) st = (Inr r, st') \<and>
                  exceptionDetails r = None"
proof -
  have "fst (transport drv (Runtime_evaluate (TextIncludes t)) (outside st)) = None"
    using assms by (simp add: scripts_reliable_def evaluate_resolving_def)
  from evaluate_resolves [OF this] obtain st' where
    e: "client_Runtime_evaluate drv (TextIncludes t) st =
          (Inr (run_script (page_of drv (outside st')) (TextIncludes t)), st')" by blast
  have "page_innerText (page_of drv (outside st')) \<noteq> None"
    using assms by (simp add: scripts_reliable_def)
  then have "exceptionDetails (run_script (page_of drv (outside st')) (TextIncludes t)) = None"
    by (auto split: option.splits)
  with e show ?thesis by blast
qed

lemma check_text_resolves:
  assumes "scripts_reliable drv opts"
  shows "\<exists>c' st'. check_text drv opts c st = (Inr c', st')"
proof (cases "opt_text opts")
  case None
  then show ?thesis by (simp add: check_text_def)
next
  case (Some t)
  from evaluate_text_no_exception [OF assms, of t st] obtain r st' where
    "client_Runtime_evaluate drv (TextIncludes t) st = (Inr r, st')" "exceptionDetails r = None"
    by blast
  with Some show ?thesis by (simp add: check_text_def)
qed

lemma check_url_resolves:
  assumes "scripts_reliable drv opts"
  shows "\<exists>c' st'. check_url drv opts c st = (Inr c', st')"
proof (cases "opt_url opts")
  case None
  then show ?thesis by (simp add: check_url_def)
next
  case (Some u)
  have up: "evaluate_resolving drv" using assms by (simp add: scripts_reliable_def)
  from evaluate_resolving_Inr [OF up, of LocationHref st] obtain r st' where
    e: "client_Runtime_evaluate drv LocationHref st = (Inr r, st')" by blast
  from assms Some obtain test where "RegExp_new drv u = Inr test"
    by (cases "RegExp_new drv u") (auto simp: scripts_reliable_def)
  with Some e show ?thesis by (simp add: check_url_def)
qed

lemma poll_once_resolves:
  assumes "scripts_reliable drv opts"
  shows "\<exists>c' st'. poll_once drv opts cell c st = (Inr c', st')"
proof -
  obtain c1 st1 where e: "check_element drv opts c st = (c1, st1)" by fastforce
  from check_text_resolves [OF assms, of c1 st1] obtain c2 st2 where
    t: "check_text drv opts c1 st1 = (Inr c2, st2)" by blast
  from check_url_resolves [OF assms, of c2 st2] obtain c3 st3 where
    u: "check_url drv opts c2 st2 = (Inr c3, st3)" by blast
  show ?thesis by (simp add: poll_once_def e t u)
qed

lemma actual_text_resolves:
  assumes "scripts_reliable drv opts"
  shows "\<exists>v st'. actual_text drv opts st = (Inr v, st')"
proof (cases "opt_text opts")
  case None
  then show ?thesis by (simp add: actual_text_def)
next
  case (Some t)
  have up: "evaluate_resolving drv" using assms by (simp add: scripts_reliable_def)
  from evaluate_resolving_Inr [OF up, of "TextIncludes t" st] obtain r st' where
    "client_Runtime_evaluate drv (TextIncludes t) st = (Inr r, st')" by blast
  with Some show ?thesis by (simp add: actual_text_def)
qed

lemma finish_resolves:
  assumes "scripts_reliable drv opts"
  shows "\<exists>out st'. finish drv opts t0 ok c st = (Inr out, st')"
proof -
  have up: "evaluate_resolving drv" using assms by (simp add: scripts_reliable_def)
  from evaluate_resolving_Inr [OF up, of LocationHref st] obtain r st1 where
    e: "client_Runtime_evaluate drv LocationHref st = (Inr r, st1)" by blast
  obtain found st2 where a: "actual_element drv opts st1 = (found, st2)" by fastforce
  from actual_text_resolves [OF assms, of st2] obtain v st3 where
    t: "actual_text drv opts st2 = (Inr v, st3)" by blast
  show ?thesis by (simp add: finish_def getActualState_def e a t)
qed

lemma poll_loop_resolves:
  "scripts_reliable drv opts \<Longrightarrow> \<exists>out st'. poll_loop drv opts t0 T cell c st = (Inr out, st')"
proof (induction drv opts t0 T cell c st rule: poll_loop.induct)
  case (1 drv opts t0 T cell c st)
  note rel = "1.prems"
  show ?case
  proof (cases "clock st - t0 < T")
    case False
    then have "poll_loop drv opts t0 T cell c st = finish drv opts t0 False c st"
      by (subst poll_loop.simps) simp
    with finish_resolves [OF rel, of t0 False c st] show ?thesis by simp
  next
    case True
    from poll_once_resolves [OF rel, of cell c st] obtain c1 st1 where
      po: "poll_once drv opts cell c st = (Inr c1, st1)" by blast
    show ?thesis
    proof (cases "allConditionsMet c1")
      case met: True
      have "poll_loop drv opts t0 T cell c st = finish drv opts t0 True c1 st1"
        by (subst poll_loop.simps) (simp add: True po met)
      with finish_resolves [OF rel, of t0 True c1 st1] show ?thesis by simp
    next
      case unmet: False
      have "poll_loop drv opts t0 T cell c st =
              poll_loop drv opts t0 T cell c1 (sleep drv WAIT_CHECK_INTERVAL_MS st1)"
        by (subst poll_loop.simps) (simp add: True po unmet)
      with "1.IH" [OF True po [symmetric] refl unmet rel] show ?thesis by simp
    qed
  qed
qed

lemma waitFor_resolves:
  assumes "scripts_reliable drv opts"
  shows "\<exists>out. fst (waitFor drv opts st) = Inr out"
proof -
  let ?T = "effective_timeout opts"
  obtain cell st1 where nc: "new_cell (clock st) st = (cell, st1)" by fastforce
  have "\<exists>out st'. waitFor_try drv opts (clock st) ?T st = (Inr out, st')"
  proof (cases "opt_networkIdle opts")
    case None
    with poll_loop_resolves [OF assms, of "clock st" ?T cell "initial_conditions opts" st1] nc
    show ?thesis by (simp add: waitFor_try_def)
  next
    case (Some idle)
    obtain r2 st2 where en: "client_Network_enable drv st1 = (r2, st2)" by fastforce
    have "fst (transport drv Network_enable (outside st1)) = None"
      using assms by (simp add: scripts_reliable_def)
    with Network_enable_result [OF en] have r2: "r2 = Inr ()" by simp
    let ?st3 = "client_on LoadingFinished cell (client_on RequestWillBeSent cell st2)"
    from poll_loop_resolves [OF assms, of "clock st" ?T cell "initial_conditions opts" ?st3]
      nc Some en r2
    show ?thesis by (simp add: waitFor_try_def)
  qed
  then show ?thesis by (auto simp: waitFor_def)
qed

subsection \<open>A condition that is never satisfied\<close>

lemma finish_elapsed:
  assumes "finish drv opts t0 ok c st = (Inr out, st')"
  shows "clock st - t0 \<le> timeElapsed out"
proof -
  have "advances is_probe st st'" using assms by (rule advances_finish)
  then have "clock st \<le> clock st'" by (simp add: advances_def)
  moreover have "timeElapsed out = clock st' - t0"
    using assms by (auto simp: finish_def split: prod.splits sum.splits)
  ultimately show ?thesis by simp
qed

lemma poll_loop_never_met:
  assumes run: "poll_loop drv opts t0 T cell c st = (Inr out, st')" and p: "P c"
    and step: "\<And>c st c1 st1. poll_once drv opts cell c st = (Inr c1, st1) \<Longrightarrow> P c \<Longrightarrow>
                   P c1 \<and> \<not> allConditionsMet c1"
  shows "P (out_conditions out) \<and> \<not> success out \<and> T \<le> timeElapsed out"
  using run p step
proof (induction drv opts t0 T cell c st arbitrary: out st' rule: poll_loop.induct)
  case (1 drv opts t0 T cell c st)
  from "1.prems"(1) show ?case
  proof (cases rule: poll_loop_Inr_cases)
    case timeout
    from finish_outcome [OF timeout(2)] finish_elapsed [OF timeout(2)] timeout(1) "1.prems"(2)
    show ?thesis by auto
  next
    case (met c1 st1)
    from "1.prems"(3) [OF met(2) "1.prems"(2)] met(3) show ?thesis by simp
  next
    case (again c1 st1)
    have "P c1" using "1.prems"(3) [OF again(2) "1.prems"(2)] by simp
    from "1.IH" [OF again(1) again(2) [symmetric] refl again(3) again(4) this "1.prems"(3)]
    show ?thesis by simp
  qed
qed

lemma waitFor_try_loop:
  assumes "waitFor_try drv opts t0 T st = (Inr out, st')"
  shows "\<exists>cell st1. poll_loop drv opts t0 T cell (initial_conditions opts) st1 = (Inr out, st')"
proof -
  obtain cell st1 where nc: "new_cell (clock st) st = (cell, st1)" by fastforce
  show ?thesis
  proof (cases "opt_networkIdle opts")
    case None
    with assms nc show ?thesis by (auto simp: waitFor_try_def)
  next
    case (Some idle)
    obtain r2 st2 where en: "client_Network_enable drv st1 = (r2, st2)" by fastforce
    with assms nc Some show ?thesis by (cases r2) (auto simp: waitFor_try_def)
  qed
qed

lemma waitFor_never_met:
  assumes step: "\<And>cell c st c1 st1. poll_once drv opts cell c st = (Inr c1, st1) \<Longrightarrow> P c \<Longrightarrow>
                   P c1 \<and> \<not> allConditionsMet c1"
    and init: "P (initial_conditions opts)"
    and res: "fst (waitFor drv opts st) = Inr out"
  shows "P (out_conditions out) \<and> \<not> success out \<and> effective_timeout opts \<le> timeElapsed out"
proof -
  obtain r st1 where "waitFor_try drv opts (clock st) (effective_timeout opts) st = (r, st1)"
    by fastforce
  moreover have "fst (waitFor_try drv opts (clock st) (effective_timeout opts) st) = Inr out"
    using res waitFor_result [of drv opts st out] by simp
  ultimately
  have "waitFor_try drv opts (clock st) (effective_timeout opts) st = (Inr out, st1)" by simp
  from waitFor_try_loop [OF this] obtain cell st0 where
    "poll_loop drv opts (clock st) (effective_timeout opts) cell (initial_conditions opts) st0
       = (Inr out, st1)" by blast
  from poll_loop_never_met [OF this, of P, OF init step] show ?thesis by simp
qed

subsection \<open>A text that never appears\<close>

definition text_absent :: "'w driver \<Rightarrow> string \<Rightarrow> bool" where
  "text_absent drv t =
     (\<forall>w. case page_innerText (page_of drv w) of None \<Rightarrow> True | Some body \<Rightarrow> \<not> js_includes body t)"

lemma check_text_probe:
  assumes "opt_text opts = Some t" "t \<noteq> []" "cond_text c \<noteq> Some True"
    and "transport drv (Runtime_evaluate (TextIncludes t)) (outside st) = (None, d, evs, w)"
    and "page_innerText (page_of drv w) = Some body"
  shows "fst (check_text drv opts c st) =
           Inr (if js_includes body t then c\<lparr>cond_text := Some True\<rparr> else c)"
  using assms
  by (simp add: check_text_def client_Runtime_evaluate_def await_call_def suspend_def)

lemma check_text_absent:
  assumes "text_absent drv t" "opt_text opts = Some t"
    and "check_text drv opts c st = (Inr c', st')"
  shows "c' = c"
proof (cases "t \<noteq> [] \<and> cond_text c \<noteq> Some True")
  case False
  with assms(2,3) show ?thesis by (auto simp: check_text_def)
next
  case True
  obtain f d evs w where tr: "transport drv (Runtime_evaluate (TextIncludes t)) (outside st)
      = (f, d, evs, w)" by (metis prod_cases4)
  show ?thesis
  proof (cases "page_innerText (page_of drv w)")
    case None
    with assms(2,3) True tr show ?thesis
      by (auto simp: check_text_def client_Runtime_evaluate_def await_call_def suspend_def
               split: option.splits)
  next
    case (Some body)
    with assms(1) have "\<not> js_includes body t"
      by (auto simp: text_absent_def split: option.splits dest: spec [of _ w])
    with assms(2,3) True tr Some show ?thesis
      by (auto simp: check_text_def client_Runtime_evaluate_def await_call_def suspend_def
               split: option.splits)
  qed
qed

lemma check_element_text_untouched:
  "cond_text (fst (check_element drv opts c st)) = cond_text c"
  by (auto simp: check_element_def split: option.splits prod.splits)

lemma check_url_text_untouched:
  "check_url drv opts c st = (Inr c', st') \<Longrightarrow> cond_text c' = cond_text c"
  by (auto simp: check_url_def split: option.splits if_splits prod.splits sum.splits)

lemma check_networkIdle_text_untouched:
  "cond_text (check_networkIdle opts cell c st) = cond_text c"
  by (auto simp: check_networkIdle_def Let_def split: option.splits)

lemma poll_once_text_never_found:
  assumes ab: "text_absent drv t" and req: "opt_text opts = Some t"
    and po: "poll_once drv opts cell c st = (Inr c', st')"
    and c: "cond_text c = Some False"
  shows "cond_text c' = Some False \<and> \<not> allConditionsMet c'"
proof -
  from po obtain c1 st1 c2 st2 c3 where
    e: "check_element drv opts c st = (c1, st1)" and
    t: "check_text drv opts c1 st1 = (Inr c2, st2)" and
    u: "check_url drv opts c2 st2 = (Inr c3, st')" and
    c': "c' = check_networkIdle opts cell c3 st'"
    by (rule poll_once_Inr)
  have "cond_text c1 = Some False"
    using check_element_text_untouched [of drv opts c st] e c by simp
  with check_text_absent [OF ab req t] check_url_text_untouched [OF u]
    check_networkIdle_text_untouched [of opts cell c3 st'] c'
  have "cond_text c' = Some False" by simp
  then show ?thesis by (simp add: allConditionsMet_def)
qed

lemma waitFor_text_never_found:
  assumes "opt_text opts = Some t" "t \<noteq> []" "scripts_reliable drv opts" "text_absent drv t"
  shows "\<exists>out. fst (waitFor drv opts st) = Inr out \<and> \<not> success out \<and>
               cond_text (out_conditions out) = Some False \<and>
               effective_timeout opts \<le> timeElapsed out"
proof -
  from waitFor_resolves [OF assms(3), of st] obtain out where
    out: "fst (waitFor drv opts st) = Inr out" by blast
  have init: "cond_text (initial_conditions opts) = Some False"
    using assms(1,2) by (simp add: initial_conditions_def requested_def)
  have step: "\<And>cell c st c1 st1. poll_once drv opts cell c st = (Inr c1, st1) \<Longrightarrow>
      cond_text c = Some False \<Longrightarrow> cond_text c1 = Some False \<and> \<not> allConditionsMet c1"
    by (rule poll_once_text_never_found [OF assms(4,1)])
  have "cond_text (out_conditions out) = Some False \<and> \<not> success out \<and>
        effective_timeout opts \<le> timeElapsed out"
    by (rule waitFor_never_met [where P = "\<lambda>c. cond_text c = Some False", OF step init out])
  with out show ?thesis by blast
qed


text \<open>
  C8 (as amended). The text condition of \<open>waitFor\<close> is a case-sensitive substring match,
  \<open>String.prototype.includes\<close> applied to the text of the page body: a probe of the text
  condition whose evaluation resolves sets the flag exactly when the body text contains the
  requested string as written (\<open>body = before @ t @ after\<close>), and leaves the conditions as
  they were otherwise. When text is the only condition requested, the timeout is absent or
  not negative, the evaluations resolve and the body text contains the requested string
  exactly as written, the text flag is set by the first poll and \<open>waitFor\<close> returns
  \<open>success = True\<close> without sleeping. When the body text never contains the requested
  string as written, the text flag is never set: the call polls until the timeout has
  elapsed and returns \<open>success = False\<close>.
\<close>

theorem waitFor_text_is_case_sensitive_substring:
  "js_includes body t = (\<exists>before after. body = before @ t @ after) \<and>
   (opt_text opts = Some t \<and> t \<noteq> [] \<and> cond_text c \<noteq> Some True \<and>
    transport drv (Runtime_evaluate (TextIncludes t)) (outside st) = (None, d, evs, w) \<and>
    page_innerText (page_of drv w) = Some body
    \<longrightarrow> fst (check_text drv opts c st) =
          Inr (if \<exists>before after. body = before @ t @ after
               then c\<lparr>cond_text := Some True\<rparr> else c)) \<and>
   (opt_text opts = Some t \<and> t \<noteq> [] \<and>
    \<not> requested (opt_element opts) \<and> \<not> requested (opt_url opts) \<and>
    opt_networkIdle opts = None \<and>
    (case opt_timeout opts of None \<Rightarrow> True | Some ms \<Rightarrow> 0 \<le> ms) \<and>
    evaluate_resolving drv \<and> text_shown drv t
    \<longrightarrow> (\<exists>out. fst (waitFor drv opts st) = Inr out \<and> success out \<and>
            cond_text (out_conditions out) = Some True \<and>
            textFound (actualState out) = JBool True \<and>
            issued st (snd (waitFor drv opts st)) =
              [Runtime_evaluate (TextIncludes t), Runtime_evaluate LocationHref,
               Runtime_evaluate (TextIncludes t)])) \<and>
   (opt_text opts' = Some t' \<and> t' \<noteq> [] \<and> scripts_reliable drv' opts' \<and> text_absent drv' t'
    \<longrightarrow> (\<exists>out. fst (waitFor drv' opts' st') = Inr out \<and> \<not> success out \<and>
            cond_text (out_conditions out) = Some False \<and>
            effective_timeout opts' \<le> timeElapsed out))"
proof (intro conjI impI)
  show "js_includes body t = (\<exists>before after. body = before @ t @ after)"
    by (simp add: js_includes_sublist sublist_def)
next
  assume h: "opt_text opts = Some t \<and> t \<noteq> [] \<and> cond_text c \<noteq> Some True \<and>
    transport drv (Runtime_evaluate (TextIncludes t)) (outside st) = (None, d, evs, w) \<and>
    page_innerText (page_of drv w) = Some body"
  have "js_includes body t = (\<exists>before after. body = before @ t @ after)"
    by (simp add: js_includes_sublist sublist_def)
  moreover have "fst (check_text drv opts c st) =
           Inr (if js_includes body t then c\<lparr>cond_text := Some True\<rparr> else c)"
    by (rule check_text_probe [where d = d and evs = evs and w = w]) (simp_all add: h)
  ultimately show "fst (check_text drv opts c st) =
          Inr (if \<exists>before after. body = before @ t @ after
               then c\<lparr>cond_text := Some True\<rparr> else c)"
    by simp
next
  assume h: "opt_text opts = Some t \<and> t \<noteq> [] \<and>
    \<not> requested (opt_element opts) \<and> \<not> requested (opt_url opts) \<and>
    opt_networkIdle opts = None \<and>
    (case opt_timeout opts of None \<Rightarrow> True | Some ms \<Rightarrow> 0 \<le> ms) \<and>
    evaluate_resolving drv \<and> text_shown drv t"
  show "\<exists>out. fst (waitFor drv opts st) = Inr out \<and> success out \<and>
            cond_text (out_conditions out) = Some True \<and>
            textFound (actualState out) = JBool True \<and>
            issued st (snd (waitFor drv opts st)) =
              [Runtime_evaluate (TextIncludes t), Runtime_evaluate LocationHref,
               Runtime_evaluate (TextIncludes t)]"
    by (rule waitFor_text_shown) (simp_all add: h)
next
  assume h: "opt_text opts' = Some t' \<and> t' \<noteq> [] \<and> scripts_reliable drv' opts' \<and>
    text_absent drv' t'"
  show "\<exists>out. fst (waitFor drv' opts' st') = Inr out \<and> \<not> success out \<and>
            cond_text (out_conditions out) = Some False \<and>
            effective_timeout opts' \<le> timeElapsed out"
    by (rule waitFor_text_never_found [where t = t']) (simp_all add: h)
qed

definition wait_for_Saved :: options where
  "wait_for_Saved = no_options\<lparr>opt_text := Some ''Saved'', opt_timeout := Some 1000\<rparr>"

definition wait_for_saved :: options where
  "wait_for_saved = no_options\<lparr>opt_text := Some ''saved'', opt_timeout := Some 1000\<rparr>"

theorem waitFor_text_is_case_sensitive_substring_witness:
  "js_includes ''Successfully Saved'' ''Saved'' \<and>
   fst (check_text saved_page wait_for_Saved (initial_conditions wait_for_Saved) fresh_world) =
     Inr ((initial_conditions wait_for_Saved)\<lparr>cond_text := Some True\<rparr>) \<and>
   evaluate_resolving saved_page \<and> text_shown saved_page ''Saved'' \<and>
   (\<exists>out. fst (waitFor saved_page wait_for_Saved fresh_world) = Inr out \<and> success out \<and>
      cond_text (out_conditions out) = Some True \<and>
      textFound (actualState out) = JBool True \<and>
      issued fresh_world (snd (waitFor saved_page wait_for_Saved fresh_world)) =
        [Runtime_evaluate (TextIncludes ''Saved''), Runtime_evaluate LocationHref,
         Runtime_evaluate (TextIncludes ''Saved'')]) \<and>
   scripts_reliable saved_page wait_for_saved \<and> text_absent saved_page ''saved'' \<and>
   (\<exists>out. fst (waitFor saved_page wait_for_saved fresh_world) = Inr out \<and> \<not> success out \<and>
      cond_text (out_conditions out) = Some False \<and>
      effective_timeout wait_for_saved \<le> timeElapsed out)"
proof -
  let ?c = "initial_conditions wait_for_Saved"
  have up: "evaluate_resolving saved_page"
    by (simp add: evaluate_resolving_def run_defs)
  have shown: "text_shown saved_page ''Saved''"
    by (simp add: text_shown_def run_defs)
  have asked: "opt_text wait_for_Saved = Some ''Saved'' \<and> ''Saved'' \<noteq> [] \<and>
      \<not> requested (opt_element wait_for_Saved) \<and> \<not> requested (opt_url wait_for_Saved) \<and>
      opt_networkIdle wait_for_Saved = None \<and>
      (case opt_timeout wait_for_Saved of None \<Rightarrow> True | Some ms \<Rightarrow> 0 \<le> ms)"
    by (simp add: wait_for_Saved_def run_defs)
  have inc: "js_includes ''Successfully Saved'' ''Saved''" by simp
  have probe: "cond_text ?c \<noteq> Some True \<and>
      transport saved_page (Runtime_evaluate (TextIncludes ''Saved'')) (outside fresh_world) =
        (None, 1, [], 1) \<and>
      page_innerText (page_of saved_page 1) = Some ''Successfully Saved''"
    by (simp add: wait_for_Saved_def run_defs)
  have asked': "opt_text wait_for_saved = Some ''saved'' \<and> ''saved'' \<noteq> []"
    by (simp add: wait_for_saved_def run_defs)
  have rel: "scripts_reliable saved_page wait_for_saved"
    by (simp add: scripts_reliable_def evaluate_resolving_def wait_for_saved_def run_defs)
  have absent: "text_absent saved_page ''saved''"
    by (simp add: text_absent_def run_defs)
  from waitFor_text_is_case_sensitive_substring
         [where body = "''Successfully Saved''" and t = "''Saved''" and opts = wait_for_Saved
            and drv = saved_page and st = fresh_world and c = ?c and d = 1 and evs = "[]"
            and w = 1 and opts' = wait_for_saved and t' = "''saved''" and drv' = saved_page
            and st' = fresh_world]
       up shown asked inc probe asked' rel absent
  show ?thesis by simp
qed

text \<open>
  Following the claim's words: a match up to letter case, that is a substring test after
  lower-casing both strings (ASCII letters).
\<close>

definition toLowerCase :: "string \<Rightarrow> string" where
  "toLowerCase s =
     map (\<lambda>ch. case map_of (zip ''ABCDEFGHIJKLMNOPQRSTUVWXYZ'' ''abcdefghijklmnopqrstuvwxyz'') ch of
                  None \<Rightarrow> ch | Some lower \<Rightarrow> lower) s"

definition contains_ignoring_case :: "string \<Rightarrow> string \<Rightarrow> bool" where
  "contains_ignoring_case body t = js_includes (toLowerCase body) (toLowerCase t)"

text \<open>
  C8, counterexample to the claim as stated: the page shows ``Successfully Saved'' and the
  requested text is ``saved''. The page contains the string up to letter case, yet the text
  condition is never satisfied and the call times out with \<open>success = False\<close>.
\<close>

theorem waitFor_text_differing_in_case_times_out:
  "contains_ignoring_case ''Successfully Saved'' ''saved'' \<and>
   fst (waitFor saved_page wait_for_saved fresh_world) =
     Inr \<lparr>success = False,
          out_conditions = nothing_asked\<lparr>cond_text := Some False\<rparr>,
          actualState = url_only,
          timeElapsed = 1012\<rparr>"
  by (simp add: wait_for_saved_def run_defs poll_loop.simps contains_ignoring_case_def
        toLowerCase_def)


subsection \<open>Which probe failures end the call\<close>

lemma poll_loop_text_failure:
  assumes "clock st - t0 < T" "check_element drv opts c st = (c1, st1)"
    and "check_text drv opts c1 st1 = (Inl e, st2)"
  shows "poll_loop drv opts t0 T cell c st = (Inl e, st2)"
  by (subst poll_loop.simps) (simp add: assms poll_once_def)

lemma check_text_throws:
  assumes "opt_text opts = Some t" "t \<noteq> []" "cond_text c \<noteq> Some True"
    and "client_Runtime_evaluate drv (TextIncludes t) st = (Inr r, st')"
    and "exceptionDetails r = Some d"
  shows "check_text drv opts c st = (Inl (''Error: Script execution failed: '' @ d), st')"
  by (simp add: check_text_def assms)

lemma query_element_tolerates:
  "fst (transport drv DOM_getDocument (outside st)) \<noteq> None \<Longrightarrow>
     fst (query_element drv sel st) = False"
  by (auto simp: query_element_def client_DOM_getDocument_def await_call_def
           split: prod.splits option.splits)


subsection \<open>An element probe that always fails\<close>

definition dom_rejecting :: "'w driver \<Rightarrow> bool" where
  "dom_rejecting drv =
     ((\<forall>w. fst (transport drv DOM_getDocument w) \<noteq> None) \<or>
      (\<forall>w n sel. fst (transport drv (DOM_querySelector n sel) w) \<noteq> None))"

lemma query_element_querySelector_rejected:
  assumes "client_DOM_getDocument drv st = (Inr rootId, st1)"
    and "fst (transport drv (DOM_querySelector rootId sel) (outside st1)) \<noteq> None"
  shows "fst (query_element drv sel st) = False"
  using assms
  by (auto simp: query_element_def client_DOM_querySelector_def await_call_def
           split: prod.splits option.splits)

lemma query_element_rejecting:
  assumes "dom_rejecting drv"
  shows "fst (query_element drv sel st) = False"
proof (cases "fst (transport drv DOM_getDocument (outside st)) \<noteq> None")
  case True
  then show ?thesis by (rule query_element_tolerates)
next
  case False
  then have "\<not> (\<forall>w. fst (transport drv DOM_getDocument w) \<noteq> None)" by blast
  with assms have q: "\<forall>w n sel. fst (transport drv (DOM_querySelector n sel) w) \<noteq> None"
    unfolding dom_rejecting_def by blast
  obtain r st1 where g: "client_DOM_getDocument drv st = (r, st1)" by fastforce
  show ?thesis
  proof (cases r)
    case (Inl e)
    with g show ?thesis by (simp add: query_element_def)
  next
    case (Inr rootId)
    with g q show ?thesis by (intro query_element_querySelector_rejected) auto
  qed
qed

lemma check_element_not_found:
  assumes "opt_element opts = Some sel" "sel \<noteq> []" "cond_element c \<noteq> Some True"
    and "\<not> fst (query_element drv sel st)"
  shows "cond_element (fst (check_element drv opts c st)) = Some False"
  using assms by (auto simp: check_element_def split: prod.splits)

lemma check_text_element_untouched:
  "check_text drv opts c st = (Inr c', st') \<Longrightarrow> cond_element c' = cond_element c"
  by (auto simp: check_text_def split: option.splits if_splits prod.splits sum.splits)

lemma check_url_element_untouched:
  "check_url drv opts c st = (Inr c', st') \<Longrightarrow> cond_element c' = cond_element c"
  by (auto simp: check_url_def split: option.splits if_splits prod.splits sum.splits)

lemma check_networkIdle_element_untouched:
  "cond_element (check_networkIdle opts cell c st) = cond_element c"
  by (auto simp: check_networkIdle_def Let_def split: option.splits)

lemma poll_once_element_never_found:
  assumes rej: "dom_rejecting drv" and req: "requested (opt_element opts)"
    and po: "poll_once drv opts cell c st = (Inr c', st')"
    and c: "cond_element c = Some False"
  shows "cond_element c' = Some False \<and> \<not> allConditionsMet c'"
proof -
  from po obtain c1 st1 c2 st2 c3 where
    e: "check_element drv opts c st = (c1, st1)" and
    t: "check_text drv opts c1 st1 = (Inr c2, st2)" and
    u: "check_url drv opts c2 st2 = (Inr c3, st')" and
    c': "c' = check_networkIdle opts cell c3 st'"
    by (rule poll_once_Inr)
  from req obtain sel where sel: "opt_element opts = Some sel" "sel \<noteq> []"
    by (auto simp: requested_def split: option.splits)
  have "\<not> fst (query_element drv sel st)" using query_element_rejecting [OF rej] by simp
  from check_element_not_found [OF sel _ this, of c] c e
  have "cond_element c1 = Some False" by simp
  with check_text_element_untouched [OF t] check_url_element_untouched [OF u]
    check_networkIdle_element_untouched [of opts cell c3 st'] c'
  have "cond_element c' = Some False" by simp
  then show ?thesis by (simp add: allConditionsMet_def)
qed

lemma waitFor_element_never_found:
  assumes "scripts_reliable drv opts" "dom_rejecting drv" "requested (opt_element opts)"
  shows "\<exists>out. fst (waitFor drv opts st) = Inr out \<and> \<not> success out \<and>
               cond_element (out_conditions out) = Some False \<and>
               effective_timeout opts \<le> timeElapsed out"
proof -
  from waitFor_resolves [OF assms(1), of st] obtain out where
    out: "fst (waitFor drv opts st) = Inr out" by blast
  have init: "cond_element (initial_conditions opts) = Some False"
    using assms(3) by (simp add: initial_conditions_def)
  have step: "\<And>cell c st c1 st1. poll_once drv opts cell c st = (Inr c1, st1) \<Longrightarrow>
      cond_element c = Some False \<Longrightarrow> cond_element c1 = Some False \<and> \<not> allConditionsMet c1"
    by (rule poll_once_element_never_found [OF assms(2,3)])
  have "cond_element (out_conditions out) = Some False \<and> \<not> success out \<and>
        effective_timeout opts \<le> timeElapsed out"
    by (rule waitFor_never_met [where P = "\<lambda>c. cond_element c = Some False", OF step init out])
  with out show ?thesis by blast
qed


text \<open>
  C3 (as amended). A failure of the element probe within a poll iteration is treated as
  ``element not found'' and polling goes on until the deadline: \<open>query_element\<close> answers
  \<open>False\<close> when \<open>DOM.getDocument\<close> rejects and when \<open>DOM.querySelector\<close> rejects after
  the document was read, \<open>check_element\<close> then records the flag as \<open>False\<close>, and when every
  element probe of a call fails in one of these ways, while the script evaluations resolve
  without an exception in the page, \<open>Network.enable\<close> resolves and the url pattern
  compiles, \<open>waitFor\<close> returns an outcome with \<open>success = False\<close>, the element flag
  \<open>False\<close>, and an elapsed time that has reached the timeout. With reliable scripts
  \<open>waitFor\<close> returns an outcome whatever the DOM calls do. A failure of the text probe is not
  tolerated: when the evaluation of the text script reports an exception in some poll
  iteration, the loop ends at once with the error ``Script execution failed'', and every
  error of the loop reaches the caller wrapped as ``Failed to wait for conditions''.
\<close>

theorem waitFor_tolerates_element_probe_failures_only:
  "(scripts_reliable drv opts \<longrightarrow> (\<exists>out. fst (waitFor drv opts st) = Inr out)) \<and>
   (fst (transport drv DOM_getDocument (outside st)) \<noteq> None \<longrightarrow>
      fst (query_element drv sel st) = False) \<and>
   (client_DOM_getDocument drv2 sa = (Inr rootId, sb) \<and>
    fst (transport drv2 (DOM_querySelector rootId sel2) (outside sb)) \<noteq> None \<longrightarrow>
      fst (query_element drv2 sel2 sa) = False) \<and>
   (opt_element opts2 = Some sel2 \<and> sel2 \<noteq> [] \<and> cond_element c0 \<noteq> Some True \<and>
    \<not> fst (query_element drv2 sel2 sa) \<longrightarrow>
      fst (check_element drv2 opts2 c0 sa) = c0\<lparr>cond_element := Some False\<rparr>) \<and>
   (scripts_reliable drv2 opts2 \<and> dom_rejecting drv2 \<and> requested (opt_element opts2) \<longrightarrow>
      (\<exists>out. fst (waitFor drv2 opts2 sa) = Inr out \<and> \<not> success out \<and>
             cond_element (out_conditions out) = Some False \<and>
             effective_timeout opts2 \<le> timeElapsed out)) \<and>
   (clock st' - t0 < T \<and> check_element drv' opts' c st' = (c1, st1) \<and>
    opt_text opts' = Some t \<and> t \<noteq> [] \<and> cond_text c1 \<noteq> Some True \<and>
    client_Runtime_evaluate drv' (TextIncludes t) st1 = (Inr r, st2) \<and>
    exceptionDetails r = Some d
    \<longrightarrow> poll_loop drv' opts' t0 T cell c st' =
          (Inl (''Error: Script execution failed: '' @ d), st2)) \<and>
   (fst (waitFor_try drv' opts' (clock st') (effective_timeout opts') st') = Inl e
    \<longrightarrow> fst (waitFor drv' opts' st') = Inl (''Error: Failed to wait for conditions: '' @ e))"
proof (intro conjI impI)
  assume "scripts_reliable drv opts"
  then show "\<exists>out. fst (waitFor drv opts st) = Inr out" by (rule waitFor_resolves)
next
  assume "fst (transport drv DOM_getDocument (outside st)) \<noteq> None"
  then show "fst (query_element drv sel st) = False" by (rule query_element_tolerates)
next
  assume "client_DOM_getDocument drv2 sa = (Inr rootId, sb) \<and>
    fst (transport drv2 (DOM_querySelector rootId sel2) (outside sb)) \<noteq> None"
  then show "fst (query_element drv2 sel2 sa) = False"
    by (simp add: query_element_querySelector_rejected)
next
  assume "opt_element opts2 = Some sel2 \<and> sel2 \<noteq> [] \<and> cond_element c0 \<noteq> Some True \<and>
    \<not> fst (query_element drv2 sel2 sa)"
  then show "fst (check_element drv2 opts2 c0 sa) = c0\<lparr>cond_element := Some False\<rparr>"
    by (auto simp: check_element_def split: prod.splits)
next
  assume "scripts_reliable drv2 opts2 \<and> dom_rejecting drv2 \<and> requested (opt_element opts2)"
  then show "\<exists>out. fst (waitFor drv2 opts2 sa) = Inr out \<and> \<not> success out \<and>
             cond_element (out_conditions out) = Some False \<and>
             effective_timeout opts2 \<le> timeElapsed out"
    by (simp add: waitFor_element_never_found)
next
  assume h: "clock st' - t0 < T \<and> check_element drv' opts' c st' = (c1, st1) \<and>
    opt_text opts' = Some t \<and> t \<noteq> [] \<and> cond_text c1 \<noteq> Some True \<and>
    client_Runtime_evaluate drv' (TextIncludes t) st1 = (Inr r, st2) \<and>
    exceptionDetails r = Some d"
  then have "check_text drv' opts' c1 st1 = (Inl (''Error: Script execution failed: '' @ d), st2)"
    by (simp add: check_text_throws)
  with h show "poll_loop drv' opts' t0 T cell c st' =
          (Inl (''Error: Script execution failed: '' @ d), st2)"
    by (simp add: poll_loop_text_failure)
next
  assume "fst (waitFor_try drv' opts' (clock st') (effective_timeout opts') st') = Inl e"
  then show "fst (waitFor drv' opts' st') = Inl (''Error: Failed to wait for conditions: '' @ e)"
    by (rule waitFor_rethrows)
qed

definition dom_down :: "cdp_method \<Rightarrow> nat \<Rightarrow> string option" where
  "dom_down m w =
     (case m of
        DOM_getDocument \<Rightarrow> Some ''DOM agent is not enabled''
      | DOM_querySelector n sel \<Rightarrow> Some ''DOM agent is not enabled''
      | _ \<Rightarrow> None)"

definition selector_rejected :: "cdp_method \<Rightarrow> nat \<Rightarrow> string option" where
  "selector_rejected m w =
     (case m of DOM_querySelector n sel \<Rightarrow> Some ''DOM Error while querying'' | _ \<Rightarrow> None)"

definition broken_selector :: "nat driver" where
  "broken_selector =
     scripted selector_rejected nothing_found (\<lambda>w. page_with_text ''Successfully Saved'')"

definition broken_dom :: "nat driver" where
  "broken_dom = scripted dom_down nothing_found (\<lambda>w. page_with_text ''Successfully Saved'')"

definition no_body :: "nat driver" where
  "no_body =
     scripted always_up nothing_found
       (\<lambda>w. \<lparr>page_href = ''http://localhost/'', page_innerText = None,
              page_querySelector = (\<lambda>sel. Inr None)\<rparr>)"

definition wait_for_btn :: options where
  "wait_for_btn = no_options\<lparr>opt_element := Some ''#btn'', opt_timeout := Some 150\<rparr>"

definition after_one_call :: "cdp_method \<Rightarrow> nat world" where
  "after_one_call m = fresh_world\<lparr>clock := 1, outside := 1, calls := [m]\<rparr>"

theorem waitFor_tolerates_element_probe_failures_only_witness:
  "scripts_reliable broken_dom wait_for_btn \<and>
   fst (waitFor broken_dom wait_for_btn fresh_world) =
     Inr \<lparr>success = False, out_conditions = nothing_asked\<lparr>cond_element := Some False\<rparr>,
          actualState = url_only, timeElapsed = 204\<rparr> \<and>
   fst (transport broken_dom DOM_getDocument (outside fresh_world)) \<noteq> None \<and>
   fst (query_element broken_dom ''#btn'' fresh_world) = False \<and>
   client_DOM_getDocument broken_selector fresh_world = (Inr 1, after_one_call DOM_getDocument) \<and>
   fst (transport broken_selector (DOM_querySelector 1 ''#btn'')
          (outside (after_one_call DOM_getDocument))) \<noteq> None \<and>
   fst (query_element broken_selector ''#btn'' fresh_world) = False \<and>
   fst (check_element broken_selector wait_for_btn (initial_conditions wait_for_btn) fresh_world) =
     (initial_conditions wait_for_btn)\<lparr>cond_element := Some False\<rparr> \<and>
   scripts_reliable broken_selector wait_for_btn \<and> dom_rejecting broken_selector \<and>
   requested (opt_element wait_for_btn) \<and>
   (\<exists>out. fst (waitFor broken_selector wait_for_btn fresh_world) = Inr out \<and> \<not> success out \<and>
          cond_element (out_conditions out) = Some False \<and>
          effective_timeout wait_for_btn \<le> timeElapsed out) \<and>
   effective_timeout wait_for_btn = 150 \<and>
   client_Runtime_evaluate no_body (TextIncludes ''Saved'') fresh_world =
     (Inr \<lparr>exceptionDetails = Some ''Uncaught'', result_value = JUndefined\<rparr>,
      after_one_call (Runtime_evaluate (TextIncludes ''Saved''))) \<and>
   poll_loop no_body wait_for_Saved 0 1000 0 (initial_conditions wait_for_Saved) fresh_world =
     (Inl ''Error: Script execution failed: Uncaught'',
      after_one_call (Runtime_evaluate (TextIncludes ''Saved''))) \<and>
   fst (waitFor no_body wait_for_Saved fresh_world) =
     Inl ''Error: Failed to wait for conditions: Error: Script execution failed: Uncaught''"
proof -
  let ?c = "initial_conditions wait_for_Saved"
  let ?cb = "initial_conditions wait_for_btn"
  let ?r = "\<lparr>exceptionDetails = Some ''Uncaught'', result_value = JUndefined\<rparr>"
  let ?st2 = "after_one_call (Runtime_evaluate (TextIncludes ''Saved''))"
  let ?out = "\<lparr>success = False, out_conditions = nothing_asked\<lparr>cond_element := Some False\<rparr>,
                 actualState = url_only, timeElapsed = 204\<rparr>"
  have rel: "scripts_reliable broken_dom wait_for_btn"
    by (simp add: scripts_reliable_def evaluate_resolving_def broken_dom_def dom_down_def
          wait_for_btn_def run_defs)
  have run: "fst (waitFor broken_dom wait_for_btn fresh_world) = Inr ?out"
    by (simp add: broken_dom_def dom_down_def wait_for_btn_def run_defs poll_loop.simps)
  have dom: "fst (transport broken_dom DOM_getDocument (outside fresh_world)) \<noteq> None"
    by (simp add: broken_dom_def dom_down_def run_defs)
  have g1: "client_DOM_getDocument broken_selector fresh_world =
              (Inr 1, after_one_call DOM_getDocument)"
    by (simp add: broken_selector_def selector_rejected_def after_one_call_def run_defs)
  have g2: "fst (transport broken_selector (DOM_querySelector 1 ''#btn'')
                   (outside (after_one_call DOM_getDocument))) \<noteq> None"
    by (simp add: broken_selector_def selector_rejected_def after_one_call_def run_defs)
  have g3: "opt_element wait_for_btn = Some ''#btn''" "''#btn'' \<noteq> []"
      "cond_element ?cb \<noteq> Some True" "requested (opt_element wait_for_btn)"
      "effective_timeout wait_for_btn = 150"
    by (simp_all add: wait_for_btn_def no_options_def initial_conditions_def requested_def
          effective_timeout_def DEFAULT_WAIT_TIMEOUT_MS_def MAX_WAIT_TIMEOUT_MS_def)
  have g4: "scripts_reliable broken_selector wait_for_btn"
    by (simp add: scripts_reliable_def evaluate_resolving_def broken_selector_def
          selector_rejected_def wait_for_btn_def run_defs)
  have g5: "dom_rejecting broken_selector"
    by (simp add: dom_rejecting_def broken_selector_def selector_rejected_def scripted_def)
  have h1: "clock fresh_world - 0 < (1000::int)"
    by (simp add: fresh_world_def)
  have h2: "check_element no_body wait_for_Saved ?c fresh_world = (?c, fresh_world)"
    by (simp add: check_element_def wait_for_Saved_def no_options_def)
  have h3: "opt_text wait_for_Saved = Some ''Saved''" "''Saved'' \<noteq> []" "cond_text ?c \<noteq> Some True"
    by (simp_all add: wait_for_Saved_def no_options_def initial_conditions_def requested_def)
  have h4: "client_Runtime_evaluate no_body (TextIncludes ''Saved'') fresh_world = (Inr ?r, ?st2)"
    by (simp add: no_body_def after_one_call_def run_defs)
  have h5: "exceptionDetails ?r = Some ''Uncaught''" by simp
  have h6: "fst (waitFor_try no_body wait_for_Saved (clock fresh_world)
                   (effective_timeout wait_for_Saved) fresh_world) =
              Inl ''Error: Script execution failed: Uncaught''"
    by (simp add: no_body_def wait_for_Saved_def run_defs poll_loop.simps)
  from waitFor_tolerates_element_probe_failures_only
         [where drv = broken_dom and opts = wait_for_btn and st = fresh_world and sel = "''#btn''"
            and ?drv2.0 = broken_selector and sa = fresh_world and rootId = 1
            and sb = "after_one_call DOM_getDocument" and ?sel2.0 = "''#btn''"
            and ?opts2.0 = wait_for_btn and ?c0.0 = ?cb
            and st' = fresh_world and ?t0.0 = 0 and T = 1000 and drv' = no_body
            and opts' = wait_for_Saved and c = ?c and ?c1.0 = ?c and ?st1.0 = fresh_world
            and t = "''Saved''" and r = ?r and ?st2.0 = ?st2 and d = "''Uncaught''" and cell = 0
            and e = "''Error: Script execution failed: Uncaught''"]
       rel dom g1 g2 g3 g4 g5 h1 h2 h3 h4 h5 h6
  show ?thesis by (simp add: run)
qed

text \<open>
  C3, counterexample to the claim as stated: the text probe fails in the first poll
  iteration (the page has no body yet, so the script throws). The call does not go on
  polling until the deadline of 1000 ms: it is over after one millisecond, with an error.
\<close>

theorem waitFor_text_probe_failure_ends_the_call:
  "fst (waitFor no_body wait_for_Saved fresh_world) =
     Inl ''Error: Failed to wait for conditions: Error: Script execution failed: Uncaught'' \<and>
   clock (snd (waitFor no_body wait_for_Saved fresh_world)) = 1 \<and>
   effective_timeout wait_for_Saved = 1000"
  by (simp add: no_body_def wait_for_Saved_def run_defs poll_loop.simps)


section \<open>ElementReadinessService\<close>

record element_state =
  visible :: bool
  enabled :: bool
  stable :: bool
  boundingBox :: "rect option"

definition STABILITY_CHECK_MS :: nat where
  "STABILITY_CHECK_MS = 100"

text \<open>The object literal returned on each of the three failure returns.\<close>

definition not_found_state :: element_state where
  "not_found_state = \<lparr>visible = False, enabled = False, stable = False, boundingBox = None\<rparr>"

text \<open>
  JavaScript numbers are IEEE-754 doubles. A finite double is modelled by the real number
  it denotes, and the result of an arithmetic operation is the exact result rounded to the
  nearest double, ties to even: \<open>binade x\<close> is the exponent of the doubles around \<open>x\<close>
  (not below \<open>- 1022\<close>, where the subnormal numbers begin), \<open>ulp x\<close> the distance between
  two neighbouring doubles there (52 fraction bits), and \<open>fl x\<close> the multiple of \<open>ulp x\<close>
  nearest to \<open>x\<close>. A result beyond the largest double is an infinity in JavaScript; here it
  stays the large real, which compares with 1 in the same way. \<open>Math.abs\<close> is exact.
\<close>

definition binade :: "real \<Rightarrow> int" where
  "binade x = max \<lfloor>log 2 \<bar>x\<bar>\<rfloor> (- 1022)"

definition ulp :: "real \<Rightarrow> real" where
  "ulp x = 2 powr (real_of_int (binade x) - 52)"

definition round_half_even :: "real \<Rightarrow> int" where
  "round_half_even r =
     (let f = \<lfloor>r\<rfloor> in
      if r - of_int f < 1 / 2 then f
      else if 1 / 2 < r - of_int f then f + 1
      else if even f then f else f + 1)"

definition fl :: "real \<Rightarrow> real" where
  "fl x = (if x = 0 then 0 else sgn x * (of_int (round_half_even (\<bar>x\<bar> / ulp x)) * ulp x))"

definition js_minus :: "real \<Rightarrow> real \<Rightarrow> real" where
  "js_minus a b = fl (a - b)"

definition Math_abs :: "real \<Rightarrow> real" where
  "Math_abs x = \<bar>x\<bar>"

text \<open>
  \<open>checkStability\<close>: sleep for the stability period, sample the bounding box again and
  compare the four fields with the initial box. Everything after the sleep is inside a
  \<open>try\<close> whose \<open>catch\<close> answers false. A reply that is truthy but no rectangle has none of
  the four fields, so the differences are NaN and every comparison is false; an undefined
  initial box makes \<open>initialBox.x\<close> throw.
\<close>

definition checkStability ::
  "'w driver \<Rightarrow> string \<Rightarrow> rect option \<Rightarrow> 'w world \<Rightarrow> bool \<times> 'w world" where
  "checkStability drv selector initialBox st =
     (case client_Runtime_evaluate drv (RectProbe selector) (sleep drv STABILITY_CHECK_MS st) of
        (Inl e, st1) \<Rightarrow> (False, st1)
      | (Inr r, st1) \<Rightarrow>
          if \<not> truthy (result_value r) then (False, st1)
          else (case (result_value r, initialBox) of
                  (JRect newBox, Some box) \<Rightarrow>
                    (Math_abs (js_minus (rect_x newBox) (rect_x box)) < 1 \<and>
                     Math_abs (js_minus (rect_y newBox) (rect_y box)) < 1 \<and>
                     Math_abs (js_minus (rect_width newBox) (rect_width box)) < 1 \<and>
                     Math_abs (js_minus (rect_height newBox) (rect_height box)) < 1, st1)
                | _ \<Rightarrow> (False, st1)))"

text \<open>
  The body of the \<open>try\<close> in \<open>checkElementState\<close>; \<open>Inl\<close> is an exception on its way to
  the \<open>catch\<close>. A reply value that is truthy but not the object built by the script has no
  \<open>visible\<close>, \<open>enabled\<close> or \<open>boundingBox\<close>; the model reads the undefined flags as false.
\<close>

definition checkElementState_try ::
  "'w driver \<Rightarrow> string \<Rightarrow> 'w world \<Rightarrow> element_state settled \<times> 'w world" where
  "checkElementState_try drv selector st =
     (case client_DOM_getDocument drv st of
        (Inl e, st1) \<Rightarrow> (Inl e, st1)
      | (Inr rootId, st1) \<Rightarrow>
          (case client_DOM_querySelector drv rootId selector st1 of
             (Inl e, st2) \<Rightarrow> (Inl e, st2)
           | (Inr nodeId, st2) \<Rightarrow>
               if nodeId = None \<or> nodeId = Some 0 then (Inr not_found_state, st2)
               else (case client_Runtime_evaluate drv (ElementProbe selector) st2 of
                       (Inl e, st3) \<Rightarrow> (Inl e, st3)
                     | (Inr r, st3) \<Rightarrow>
                         if exceptionDetails r \<noteq> None \<or> \<not> truthy (result_value r) \<or>
                            result_value r = JNull
                         then (Inr not_found_state, st3)
                         else (case result_value r of
                                 JProbe v e box \<Rightarrow>
                                   (case checkStability drv selector (Some box) st3 of
                                      (s, st4) \<Rightarrow>
                                        (Inr \<lparr>visible = v, enabled = e, stable = s,
                                              boundingBox = Some box\<rparr>, st4))
                               | _ \<Rightarrow>
                                   (case checkStability drv selector None st3 of
                                      (s, st4) \<Rightarrow>
                                        (Inr \<lparr>visible = False, enabled = False, stable = s,
                                              boundingBox = None\<rparr>, st4))))))"

definition checkElementState ::
  "'w driver \<Rightarrow> string \<Rightarrow> 'w world \<Rightarrow> element_state settled \<times> 'w world" where
  "checkElementState drv selector st =
     (case checkElementState_try drv selector st of
        (Inl e, st1) \<Rightarrow> (Inr not_found_state, st1)
      | (Inr s, st1) \<Rightarrow> (Inr s, st1))"

definition isReady :: "element_state \<Rightarrow> bool" where
  "isReady s = (visible s \<and> enabled s \<and> stable s)"

subsection \<open>The stability check\<close>

lemma evaluate_cases:
  assumes "transport drv (Runtime_evaluate s) (outside st) = (failure, d, evs, w)"
  shows "fst (client_Runtime_evaluate drv s st) =
           (case failure of Some e \<Rightarrow> Inl e | None \<Rightarrow> Inr (run_script (page_of drv w) s))"
  using assms
  by (auto simp: client_Runtime_evaluate_def await_call_def split: option.splits)

lemma round_half_even_ge: "of_int m \<le> r \<Longrightarrow> m \<le> round_half_even r"
  unfolding round_half_even_def Let_def by (auto; linarith)

lemma round_half_even_le: "r \<le> of_int m \<Longrightarrow> round_half_even r \<le> m"
  unfolding round_half_even_def Let_def by (auto; linarith)

lemma round_half_even_odd:
  assumes "odd k"
  shows "round_half_even r \<le> k \<longleftrightarrow> r < of_int k + 1 / 2"
proof -
  let ?f = "\<lfloor>r\<rfloor>"
  have b: "of_int ?f \<le> r" "r < of_int ?f + 1" by linarith+
  show ?thesis
  proof (cases "r - of_int ?f < 1 / 2")
    case True
    then have "round_half_even r = ?f" by (simp add: round_half_even_def)
    moreover have "?f \<le> k \<longleftrightarrow> r < of_int k + 1 / 2"
    proof
      assume "?f \<le> k" then have "of_int ?f \<le> (of_int k :: real)" by simp
      with True show "r < of_int k + 1 / 2" by linarith
    next
      assume "r < of_int k + 1 / 2"
      with b have "of_int ?f < (of_int k :: real) + 1" by linarith
      then have "?f < k + 1" by (metis of_int_1 of_int_add of_int_less_iff)
      then show "?f \<le> k" by simp
    qed
    ultimately show ?thesis by simp
  next
    case False
    show ?thesis
    proof (cases "1 / 2 < r - of_int ?f")
      case True
      then have "round_half_even r = ?f + 1" using False by (simp add: round_half_even_def)
      moreover have "?f + 1 \<le> k \<longleftrightarrow> r < of_int k + 1 / 2"
      proof
        assume "?f + 1 \<le> k" then have "of_int ?f + 1 \<le> (of_int k :: real)"
          by (metis of_int_1 of_int_add of_int_le_iff)
        with b show "r < of_int k + 1 / 2" by linarith
      next
        assume "r < of_int k + 1 / 2"
        with True have "of_int ?f < (of_int k :: real)" by linarith
        then have "?f < k" by simp
        then show "?f + 1 \<le> k" by simp
      qed
      ultimately show ?thesis by simp
    next
      case tie: False
      with False have eq: "r = of_int ?f + 1 / 2" by linarith
      show ?thesis
      proof (cases "even ?f")
        case True
        then have "round_half_even r = ?f" using False tie by (simp add: round_half_even_def)
        moreover from True assms have "?f \<noteq> k" by auto
        moreover have "r < of_int k + 1 / 2 \<longleftrightarrow> ?f < k"
          using eq by (metis add_less_cancel_right of_int_less_iff)
        ultimately show ?thesis by auto
      next
        case odd: False
        then have "round_half_even r = ?f + 1" using False tie by (simp add: round_half_even_def)
        moreover have "r < of_int k + 1 / 2 \<longleftrightarrow> ?f < k"
          using eq by (metis add_less_cancel_right of_int_less_iff)
        ultimately show ?thesis by auto
      qed
    qed
  qed
qed

lemma ulp_pos: "0 < ulp x" by (simp add: ulp_def)

lemma abs_fl: "x \<noteq> 0 \<Longrightarrow> \<bar>fl x\<bar> = of_int (round_half_even (\<bar>x\<bar> / ulp x)) * ulp x"
proof -
  assume x: "x \<noteq> 0"
  have "0 \<le> \<bar>x\<bar> / ulp x" using ulp_pos [of x] by simp
  then have "(0::int) \<le> round_half_even (\<bar>x\<bar> / ulp x)"
    by (intro round_half_even_ge) simp
  then have "(0::real) \<le> of_int (round_half_even (\<bar>x\<bar> / ulp x))" by simp
  with x ulp_pos [of x] show ?thesis by (simp add: fl_def abs_mult)
qed

lemma fl_below_one:
  "\<bar>fl x\<bar> < 1 \<longleftrightarrow> \<bar>x\<bar> < 1 - 1 / 2 ^ 54"
proof (cases "x = 0")
  case True
  then show ?thesis by (simp add: fl_def)
next
  case False
  let ?a = "\<bar>x\<bar>"
  let ?e = "binade x"
  let ?u = "ulp x"
  let ?n = "?a / ?u"
  have a: "0 < ?a" using False by simp
  have u: "0 < ?u" by (rule ulp_pos)
  note fl = abs_fl [OF False]
  have lo: "\<lfloor>log 2 ?a\<rfloor> \<le> ?e" by (simp add: binade_def)
  have up: "?a < 2 powr (real_of_int ?e + 1)"
  proof -
    have "?a < 2 powr (real_of_int \<lfloor>log 2 ?a\<rfloor> + 1)"
      using a floor_log_eq_powr_iff [of ?a 2 "\<lfloor>log 2 ?a\<rfloor>"] by simp
    also have "\<dots> \<le> 2 powr (real_of_int ?e + 1)" using lo by simp
    finally show ?thesis .
  qed
  show ?thesis
  proof (cases "1 \<le> ?a")
    case True
    then have "0 \<le> log 2 ?a" by simp
    then have f0: "0 \<le> \<lfloor>log 2 ?a\<rfloor>" by simp
    then have e: "?e = \<lfloor>log 2 ?a\<rfloor>" by (simp add: binade_def)
    have e0: "0 \<le> ?e" using f0 e by simp
    have "2 powr real_of_int ?e \<le> ?a"
      using a floor_log_eq_powr_iff [of ?a 2 "\<lfloor>log 2 ?a\<rfloor>"] e by simp
    then have "2 powr real_of_int ?e / ?u \<le> ?n" using u by (simp add: divide_right_mono)
    moreover have "2 powr real_of_int ?e / ?u = 2 powr 52"
      by (simp add: ulp_def powr_diff [symmetric])
    moreover have "(2::real) powr 52 = of_int (2 ^ 52)" by simp
    ultimately have "of_int (2 ^ 52) \<le> ?n" by simp
    then have "2 ^ 52 \<le> round_half_even ?n" by (rule round_half_even_ge)
    then have "(of_int (2 ^ 52) :: real) \<le> of_int (round_half_even ?n)"
      using of_int_le_iff by blast
    then have "of_int (2 ^ 52) * ?u \<le> of_int (round_half_even ?n) * ?u"
      using u by (simp add: mult_right_mono)
    moreover have "of_int (2 ^ 52) * ?u = 2 powr real_of_int ?e"
    proof -
      have "(of_int (2 ^ 52) :: real) = 2 powr 52" by simp
      then show ?thesis by (simp only: ulp_def powr_add [symmetric]) simp
    qed
    moreover have "(1::real) \<le> 2 powr real_of_int ?e" using e0 by (simp add: ge_one_powr_ge_zero)
    ultimately have "1 \<le> \<bar>fl x\<bar>" using fl by linarith
    with True show ?thesis by simp
  next
    case small: False
    then have a1: "?a < 1" by simp
    then have "log 2 ?a < 0" using a by simp
    then have "\<lfloor>log 2 ?a\<rfloor> \<le> - 1" by linarith
    then have e1: "?e \<le> - 1" by (simp add: binade_def)
    show ?thesis
    proof (cases "?e = - 1")
      case True
      have uu: "?u = 1 / 2 ^ 53"
      proof -
        have "?u = 2 powr (- 53)" by (simp add: ulp_def True)
        also have "\<dots> = 1 / 2 powr 53" by (simp add: powr_minus_divide)
        also have "\<dots> = 1 / 2 ^ 53" by simp
        finally show ?thesis .
      qed
      have n: "?n = ?a * 2 ^ 53" by (simp add: uu)
      have odd: "odd (2 ^ 53 - 1 :: int)" by simp
      have "\<bar>fl x\<bar> < 1 \<longleftrightarrow> of_int (round_half_even ?n) < (2 ^ 53 :: real)"
        by (simp add: fl uu field_simps)
      also have "\<dots> \<longleftrightarrow> round_half_even ?n < 2 ^ 53"
        by (metis of_int_less_iff of_int_numeral of_int_power)
      also have "\<dots> \<longleftrightarrow> round_half_even ?n \<le> 2 ^ 53 - 1" by auto
      also have "\<dots> \<longleftrightarrow> ?n < of_int (2 ^ 53 - 1) + 1 / 2" by (rule round_half_even_odd [OF odd])
      also have "\<dots> \<longleftrightarrow> ?a < 1 - 1 / 2 ^ 54" unfolding n by (simp add: field_simps)
      finally show ?thesis .
    next
      case False
      with e1 have e2: "?e \<le> - 2" by simp
      have "real_of_int ?e + 1 \<le> - 1" using e2 by simp
      then have "2 powr (real_of_int ?e + 1) \<le> (2::real) powr (- 1)"
        by (intro powr_mono) simp_all
      also have "(2::real) powr (- 1) = 1 / 2" by (simp add: powr_minus_divide)
      finally have half: "2 powr (real_of_int ?e + 1) \<le> 1 / 2" .
      have "?n < 2 powr (real_of_int ?e + 1) / ?u" using up u by (simp add: divide_strict_right_mono)
      also have "\<dots> = 2 powr 53" by (simp add: ulp_def powr_diff [symmetric])
      also have "\<dots> = of_int (2 ^ 53)" by simp
      finally have "round_half_even ?n \<le> 2 ^ 53" by (intro round_half_even_le) simp
      then have "(of_int (round_half_even ?n) :: real) \<le> of_int (2 ^ 53)"
        using of_int_le_iff by blast
      then have "of_int (round_half_even ?n) * ?u \<le> of_int (2 ^ 53) * ?u"
        using u by (simp add: mult_right_mono)
      moreover have "of_int (2 ^ 53) * ?u = 2 powr (real_of_int ?e + 1)"
      proof -
        have "(of_int (2 ^ 53) :: real) = 2 powr 53" by simp
        then show ?thesis by (simp only: ulp_def powr_add [symmetric]) (simp add: add.commute)
      qed
      ultimately have f: "\<bar>fl x\<bar> \<le> 1 / 2" using fl half by linarith
      have "?a < 1 / 2" using up half by linarith
      with f show ?thesis by simp
    qed
  qed
qed

lemma within_tolerance:
  "Math_abs (js_minus a b) < 1 \<longleftrightarrow> \<bar>a - b\<bar> < 1 - 1 / 2 ^ 54"
  by (simp add: Math_abs_def js_minus_def fl_below_one)

lemma js_minus_just_below_one: "js_minus 1 (1 / 2 ^ 70) = 1"
proof -
  define x :: real where "x = 1 - 1 / 2 ^ 70"
  have pos: "0 < x" and abs: "\<bar>x\<bar> = x" and x0: "x \<noteq> 0" and sgn: "sgn x = 1"
    by (simp_all add: x_def)
  have "(2::real) powr (- 1) = 1 / 2" by (simp add: powr_minus_divide)
  then have "2 powr real_of_int (- 1) \<le> x \<and> x < 2 powr (real_of_int (- 1) + 1)"
    by (simp add: x_def)
  then have "\<lfloor>log 2 x\<rfloor> = - 1"
    using floor_log_eq_powr_iff [of x 2 "- 1"] pos by simp
  then have b: "binade x = - 1" by (simp add: binade_def abs)
  have u: "ulp x = 1 / 2 ^ 53"
  proof -
    have "ulp x = 2 powr (- 53)" by (simp add: ulp_def b)
    also have "\<dots> = 1 / 2 powr 53" by (simp add: powr_minus_divide)
    also have "\<dots> = 1 / 2 ^ 53" by simp
    finally show ?thesis .
  qed
  have n: "\<bar>x\<bar> / ulp x = 2 ^ 53 - 1 / 2 ^ 17" unfolding u abs by (simp add: x_def)
  have f: "\<lfloor>2 ^ 53 - 1 / 2 ^ 17 :: real\<rfloor> = 2 ^ 53 - 1"
    by (rule floor_unique) simp_all
  have r: "round_half_even (2 ^ 53 - 1 / 2 ^ 17) = 2 ^ 53"
    by (simp add: round_half_even_def f)
  have rr: "round_half_even (\<bar>x\<bar> / ulp x) = 2 ^ 53" by (simp only: n r)
  have "fl x = sgn x * (of_int (round_half_even (\<bar>x\<bar> / ulp x)) * ulp x)"
    using x0 by (simp only: fl_def if_False)
  also have "\<dots> = 1 * (of_int (2 ^ 53) * (1 / 2 ^ 53))" by (simp only: rr) (simp only: u sgn)
  also have "\<dots> = 1" by simp
  finally have "fl x = 1" .
  then show ?thesis by (simp add: js_minus_def x_def)
qed

lemma checkStability_characterised:
  assumes "transport drv (Runtime_evaluate (RectProbe sel))
             (outside (sleep drv STABILITY_CHECK_MS st)) = (failure, d, evs, w)"
  shows "fst (checkStability drv sel (Some box) st) =
           (failure = None \<and>
            (case page_querySelector (page_of drv w) sel of
               Inr (Some el) \<Rightarrow>
                 \<bar>rect_x (el_rect el) - rect_x box\<bar> < 1 - 1 / 2 ^ 54 \<and>
                 \<bar>rect_y (el_rect el) - rect_y box\<bar> < 1 - 1 / 2 ^ 54 \<and>
                 \<bar>rect_width (el_rect el) - rect_width box\<bar> < 1 - 1 / 2 ^ 54 \<and>
                 \<bar>rect_height (el_rect el) - rect_height box\<bar> < 1 - 1 / 2 ^ 54
             | _ \<Rightarrow> False))"
proof -
  let ?st1 = "sleep drv STABILITY_CHECK_MS st"
  obtain r st2 where e: "client_Runtime_evaluate drv (RectProbe sel) ?st1 = (r, st2)"
    by fastforce
  have r: "r = (case failure of Some e \<Rightarrow> Inl e
                | None \<Rightarrow> Inr (run_script (page_of drv w) (RectProbe sel)))"
    using evaluate_cases [OF assms] e by simp
  show ?thesis
    by (cases failure; cases "page_querySelector (page_of drv w) sel")
       (auto simp: checkStability_def within_tolerance e r split: option.splits)
qed


text \<open>
  C5 (as amended). The second sample is taken at least 100 ms after the first, and the
  stability check answers true exactly when the second probe resolves, finds the element,
  and for each of x, y, width and height the difference of the two samples, computed in
  double precision, has an absolute value below 1: that is, when the exact difference is
  smaller in absolute value than \<open>1 - 2\<^sup>-\<^sup>5\<^sup>4\<close>, the least real that rounds to 1. So a stable
  answer implies that every field differs by strictly less than 1, and a difference of at
  most 0.999 in every field is always stable. When the probe rejects, throws inside the
  page, or finds no element, the answer is false.
\<close>

theorem checkStability_within_one_unit:
  "transport drv (Runtime_evaluate (RectProbe sel))
     (outside (sleep drv STABILITY_CHECK_MS st)) = (failure, d, evs, w) \<longrightarrow>
   clock st + 100 \<le> clock (sleep drv STABILITY_CHECK_MS st) \<and>
   fst (checkStability drv sel (Some box) st) =
     (failure = None \<and>
      (case page_querySelector (page_of drv w) sel of
         Inr (Some el) \<Rightarrow>
           Math_abs (js_minus (rect_x (el_rect el)) (rect_x box)) < 1 \<and>
           Math_abs (js_minus (rect_y (el_rect el)) (rect_y box)) < 1 \<and>
           Math_abs (js_minus (rect_width (el_rect el)) (rect_width box)) < 1 \<and>
           Math_abs (js_minus (rect_height (el_rect el)) (rect_height box)) < 1
       | _ \<Rightarrow> False)) \<and>
   fst (checkStability drv sel (Some box) st) =
     (failure = None \<and>
      (case page_querySelector (page_of drv w) sel of
         Inr (Some el) \<Rightarrow>
           \<bar>rect_x (el_rect el) - rect_x box\<bar> < 1 - 1 / 2 ^ 54 \<and>
           \<bar>rect_y (el_rect el) - rect_y box\<bar> < 1 - 1 / 2 ^ 54 \<and>
           \<bar>rect_width (el_rect el) - rect_width box\<bar> < 1 - 1 / 2 ^ 54 \<and>
           \<bar>rect_height (el_rect el) - rect_height box\<bar> < 1 - 1 / 2 ^ 54
       | _ \<Rightarrow> False)) \<and>
   (Math_abs (js_minus a b) < 1 \<longrightarrow> \<bar>a - b\<bar> < 1) \<and>
   (\<bar>a - b\<bar> \<le> 999 / 1000 \<longrightarrow> Math_abs (js_minus a b) < 1)"
proof (intro impI conjI)
  assume h: "transport drv (Runtime_evaluate (RectProbe sel))
     (outside (sleep drv STABILITY_CHECK_MS st)) = (failure, d, evs, w)"
  show "clock st + 100 \<le> clock (sleep drv STABILITY_CHECK_MS st)"
    using clock_sleep [of st STABILITY_CHECK_MS drv] by (simp add: STABILITY_CHECK_MS_def)
  show exact: "fst (checkStability drv sel (Some box) st) =
     (failure = None \<and>
      (case page_querySelector (page_of drv w) sel of
         Inr (Some el) \<Rightarrow>
           \<bar>rect_x (el_rect el) - rect_x box\<bar> < 1 - 1 / 2 ^ 54 \<and>
           \<bar>rect_y (el_rect el) - rect_y box\<bar> < 1 - 1 / 2 ^ 54 \<and>
           \<bar>rect_width (el_rect el) - rect_width box\<bar> < 1 - 1 / 2 ^ 54 \<and>
           \<bar>rect_height (el_rect el) - rect_height box\<bar> < 1 - 1 / 2 ^ 54
       | _ \<Rightarrow> False))"
    by (rule checkStability_characterised [OF h])
  show "fst (checkStability drv sel (Some box) st) =
     (failure = None \<and>
      (case page_querySelector (page_of drv w) sel of
         Inr (Some el) \<Rightarrow>
           Math_abs (js_minus (rect_x (el_rect el)) (rect_x box)) < 1 \<and>
           Math_abs (js_minus (rect_y (el_rect el)) (rect_y box)) < 1 \<and>
           Math_abs (js_minus (rect_width (el_rect el)) (rect_width box)) < 1 \<and>
           Math_abs (js_minus (rect_height (el_rect el)) (rect_height box)) < 1
       | _ \<Rightarrow> False))"
    unfolding exact within_tolerance ..
next
  assume "Math_abs (js_minus a b) < 1"
  then have "\<bar>a - b\<bar> < 1 - 1 / 2 ^ 54" by (simp add: within_tolerance)
  then show "\<bar>a - b\<bar> < 1" by simp
next
  assume "\<bar>a - b\<bar> \<le> 999 / 1000"
  then have "\<bar>a - b\<bar> < 1 - 1 / 2 ^ 54" by simp
  then show "Math_abs (js_minus a b) < 1" by (simp add: within_tolerance)
qed

definition rect_of :: "real \<Rightarrow> real \<Rightarrow> real \<Rightarrow> real \<Rightarrow> rect" where
  "rect_of x y w h = \<lparr>rect_x = x, rect_y = y, rect_width = w, rect_height = h\<rparr>"

definition button :: "rect \<Rightarrow> dom_element" where
  "button box =
     \<lparr>el_rect = box, style_visibility = ''visible'', style_display = ''block'',
      style_opacity = ''1'', style_pointerEvents = ''auto'', el_disabled = False,
      el_readOnly = False, el_aria_disabled = False\<rparr>"

text \<open>
  A page whose only element is \<open>#btn\<close>; its box is \<open>a\<close> until the \<open>n\<close>-th suspension and
  \<open>b\<close> from then on.
\<close>

definition button_page :: "nat \<Rightarrow> rect \<Rightarrow> rect \<Rightarrow> nat \<Rightarrow> page" where
  "button_page n a b w =
     \<lparr>page_href = ''http://localhost/'',
      page_innerText = Some ''OK'',
      page_querySelector =
        (\<lambda>sel. if sel = ''#btn'' then Inr (Some (button (if w < n then a else b))) else Inr None)\<rparr>"

definition found_5 :: "nat \<Rightarrow> nat option" where
  "found_5 w = Some 5"

definition button_driver ::
  "(cdp_method \<Rightarrow> nat \<Rightarrow> string option) \<Rightarrow> nat \<Rightarrow> rect \<Rightarrow> rect \<Rightarrow> nat driver" where
  "button_driver failing n a b = scripted failing found_5 (button_page n a b)"

lemmas readiness_defs =
  checkElementState_def checkElementState_try_def checkStability_def within_tolerance
  not_found_state_def
  STABILITY_CHECK_MS_def isReady_def isVisible_def isEnabled_def
  button_driver_def button_page_def button_def rect_of_def found_5_def

theorem checkStability_within_one_unit_witness:
  "transport (button_driver always_up 1 (rect_of 100 200 50 30) (rect_of 100.4 200.2 50 30))
     (Runtime_evaluate (RectProbe ''#btn''))
     (outside (sleep (button_driver always_up 1 (rect_of 100 200 50 30) (rect_of 100.4 200.2 50 30))
                STABILITY_CHECK_MS fresh_world)) = (None, 1, [], 2) \<and>
   fst (checkStability
          (button_driver always_up 1 (rect_of 100 200 50 30) (rect_of 100.4 200.2 50 30))
          ''#btn'' (Some (rect_of 100 200 50 30)) fresh_world) = True \<and>
   transport (button_driver always_up 1 (rect_of 100 200 50 30) (rect_of 106 200 50 30))
     (Runtime_evaluate (RectProbe ''#btn''))
     (outside (sleep (button_driver always_up 1 (rect_of 100 200 50 30) (rect_of 106 200 50 30))
                STABILITY_CHECK_MS fresh_world)) = (None, 1, [], 2) \<and>
   fst (checkStability
          (button_driver always_up 1 (rect_of 100 200 50 30) (rect_of 106 200 50 30))
          ''#btn'' (Some (rect_of 100 200 50 30)) fresh_world) = False \<and>
   \<bar>100.4 - 100\<bar> \<le> (999 / 1000 :: real) \<and>
   Math_abs (js_minus 100.4 100) < 1 \<and>
   \<bar>100.4 - 100\<bar> < (1::real)"
proof -
  let ?a = "rect_of 100 200 50 30"
  let ?near = "button_driver always_up 1 ?a (rect_of 100.4 200.2 50 30)"
  let ?far = "button_driver always_up 1 ?a (rect_of 106 200 50 30)"
  have near: "transport ?near (Runtime_evaluate (RectProbe ''#btn''))
      (outside (sleep ?near STABILITY_CHECK_MS fresh_world)) = (None, 1, [], 2)"
    by (simp add: readiness_defs run_defs)
  have far: "transport ?far (Runtime_evaluate (RectProbe ''#btn''))
      (outside (sleep ?far STABILITY_CHECK_MS fresh_world)) = (None, 1, [], 2)"
    by (simp add: readiness_defs run_defs)
  note n = checkStability_within_one_unit
             [where drv = ?near and sel = "''#btn''" and st = fresh_world and failure = None
                and d = 1 and evs = "[]" and w = 2 and box = ?a and a = "100.4" and b = 100,
              THEN mp, OF near]
  note f = checkStability_within_one_unit
             [where drv = ?far and sel = "''#btn''" and st = fresh_world and failure = None
                and d = 1 and evs = "[]" and w = 2 and box = ?a and a = "100.4" and b = 100,
              THEN mp, OF far]
  have close: "\<bar>100.4 - 100\<bar> \<le> (999 / 1000 :: real)" by simp
  have t: "Math_abs (js_minus 100.4 100) < 1"
    using n [THEN conjunct2, THEN conjunct2, THEN conjunct2, THEN conjunct2] close by blast
  have t': "\<bar>100.4 - 100\<bar> < (1::real)"
    using n [THEN conjunct2, THEN conjunct2, THEN conjunct2, THEN conjunct1] t by blast
  have "fst (checkStability ?near ''#btn'' (Some ?a) fresh_world) = True"
    using n [THEN conjunct2, THEN conjunct2, THEN conjunct1]
    by (simp add: button_driver_def button_page_def button_def rect_of_def scripted_def)
  moreover have "fst (checkStability ?far ''#btn'' (Some ?a) fresh_world) = False"
    using f [THEN conjunct2, THEN conjunct2, THEN conjunct1]
    by (simp add: button_driver_def button_page_def button_def rect_of_def scripted_def)
  ultimately show ?thesis using near far close t t' by blast
qed

text \<open>
  C5, counterexample to the claim as stated: the first sample has \<open>x = 2\<^sup>-\<^sup>7\<^sup>0\<close> and the
  second, 100 ms later, \<open>x = 1\<close>, the other fields being equal. The two samples differ by
  strictly less than 1 in every field, but the difference \<open>1 - 2\<^sup>-\<^sup>7\<^sup>0\<close> is not a double: the
  subtraction yields the nearest one, which is 1, and the check answers false.
\<close>

theorem checkStability_rounds_the_difference_up_to_one:
  "\<bar>1 - 1 / 2 ^ 70\<bar> < (1::real) \<and> \<bar>200 - 200\<bar> < (1::real) \<and> \<bar>50 - 50\<bar> < (1::real) \<and>
   \<bar>30 - 30\<bar> < (1::real) \<and>
   js_minus 1 (1 / 2 ^ 70) = 1 \<and>
   fst (checkStability
          (button_driver always_up 1 (rect_of (1 / 2 ^ 70) 200 50 30) (rect_of 1 200 50 30))
          ''#btn'' (Some (rect_of (1 / 2 ^ 70) 200 50 30)) fresh_world) = False"
proof -
  let ?a = "rect_of (1 / 2 ^ 70) 200 50 30"
  let ?drv = "button_driver always_up 1 ?a (rect_of 1 200 50 30)"
  have probe: "transport ?drv (Runtime_evaluate (RectProbe ''#btn''))
      (outside (sleep ?drv STABILITY_CHECK_MS fresh_world)) = (None, 1, [], 2)"
    by (simp add: readiness_defs run_defs)
  have "fst (checkStability ?drv ''#btn'' (Some ?a) fresh_world) = False"
    using checkStability_characterised [OF probe, of ?a]
    by (simp add: button_driver_def button_page_def button_def rect_of_def scripted_def)
  moreover have "js_minus 1 (1 / 2 ^ 70) = 1"
    by (rule js_minus_just_below_one)
  ultimately show ?thesis by simp
qed


subsection \<open>The readiness check\<close>

lemma getDocument_cases:
  assumes "transport drv DOM_getDocument (outside st) = (f, d, a, w)"
  shows "\<exists>st'. client_DOM_getDocument drv st =
                 ((case f of Some e \<Rightarrow> Inl e | None \<Rightarrow> Inr (dom_root drv w)), st') \<and>
               outside st' = w"
  using assms
  by (auto simp: client_DOM_getDocument_def await_call_def split: option.splits)

lemma querySelector_cases:
  assumes "transport drv (DOM_querySelector n sel) (outside st) = (f, d, a, w)"
  shows "\<exists>st'. client_DOM_querySelector drv n sel st =
                 ((case f of Some e \<Rightarrow> Inl e | None \<Rightarrow> Inr (dom_query drv w n sel)), st') \<and>
               outside st' = w"
  using assms
  by (auto simp: client_DOM_querySelector_def await_call_def split: option.splits)

lemma evaluate_cases_state:
  assumes "transport drv (Runtime_evaluate s) (outside st) = (f, d, a, w)"
  shows "\<exists>st'. client_Runtime_evaluate drv s st =
                 ((case f of Some e \<Rightarrow> Inl e | None \<Rightarrow> Inr (run_script (page_of drv w) s)), st') \<and>
               outside st' = w"
  using assms
  by (auto simp: client_Runtime_evaluate_def await_call_def split: option.splits)

lemma checkElementState_settles: "\<exists>s. fst (checkElementState drv sel st) = Inr s"
  by (auto simp: checkElementState_def split: prod.splits sum.splits)

lemma checkElementState_catch:
  "fst (checkElementState_try drv sel st) = Inl e \<Longrightarrow>
     fst (checkElementState drv sel st) = Inr not_found_state"
  by (auto simp: checkElementState_def split: prod.splits sum.splits)

lemma checkElementState_phases:
  assumes t1: "transport drv DOM_getDocument (outside st) = (f1, d1, a1, w1)"
    and t2: "transport drv (DOM_querySelector (dom_root drv w1) sel) w1 = (f2, d2, a2, w2)"
    and t3: "transport drv (Runtime_evaluate (ElementProbe sel)) w2 = (f3, d3, a3, w3)"
  shows "(f1 \<noteq> None \<or> f2 \<noteq> None \<or>
          dom_query drv w2 (dom_root drv w1) sel = None \<or>
          dom_query drv w2 (dom_root drv w1) sel = Some 0 \<or>
          f3 \<noteq> None \<or> (\<forall>el. page_querySelector (page_of drv w3) sel \<noteq> Inr (Some el))
          \<longrightarrow> fst (checkElementState drv sel st) = Inr not_found_state) \<and>
         (f1 = None \<and> f2 = None \<and>
          dom_query drv w2 (dom_root drv w1) sel \<noteq> None \<and>
          dom_query drv w2 (dom_root drv w1) sel \<noteq> Some 0 \<and>
          f3 = None \<and> page_querySelector (page_of drv w3) sel = Inr (Some el)
          \<longrightarrow> (\<exists>s. fst (checkElementState drv sel st) = Inr s \<and>
                  visible s = isVisible el \<and> enabled s = isEnabled el \<and>
                  boundingBox s = Some (el_rect el)))"
proof -
  from getDocument_cases [OF t1] obtain st1 where
    g: "client_DOM_getDocument drv st =
          ((case f1 of Some e \<Rightarrow> Inl e | None \<Rightarrow> Inr (dom_root drv w1)), st1)"
    and o1: "outside st1 = w1" by blast
  from querySelector_cases [of drv "dom_root drv w1" sel st1] t2 o1 obtain st2 where
    q: "client_DOM_querySelector drv (dom_root drv w1) sel st1 =
          ((case f2 of Some e \<Rightarrow> Inl e
            | None \<Rightarrow> Inr (dom_query drv w2 (dom_root drv w1) sel)), st2)"
    and o2: "outside st2 = w2" by auto
  from evaluate_cases_state [of drv "ElementProbe sel" st2] t3 o2 obtain st3 where
    e: "client_Runtime_evaluate drv (ElementProbe sel) st2 =
          ((case f3 of Some e \<Rightarrow> Inl e
            | None \<Rightarrow> Inr (run_script (page_of drv w3) (ElementProbe sel))), st3)"
    by auto
  show ?thesis
  proof (cases "f1 = None \<and> f2 = None \<and> f3 = None \<and>
                dom_query drv w2 (dom_root drv w1) sel \<noteq> None \<and>
                dom_query drv w2 (dom_root drv w1) sel \<noteq> Some 0")
    case False
    then have "fst (checkElementState drv sel st) = Inr not_found_state"
      by (auto simp: checkElementState_def checkElementState_try_def g q e
               split: option.splits)
    with False show ?thesis by auto
  next
    case True
    show ?thesis
    proof (cases "page_querySelector (page_of drv w3) sel")
      case (Inl err)
      with True show ?thesis
        by (auto simp: checkElementState_def checkElementState_try_def g q e)
    next
      case (Inr found)
      show ?thesis
      proof (cases found)
        case None
        with True Inr show ?thesis
          by (auto simp: checkElementState_def checkElementState_try_def g q e)
      next
        case (Some el')
        with True Inr show ?thesis
          by (auto simp: checkElementState_def checkElementState_try_def g q e
                   split: prod.splits)
      qed
    qed
  qed
qed


lemma outside_sleep:
  "timer drv d (outside st) = (late, evs, w) \<Longrightarrow> outside (sleep drv d st) = w"
  by (simp add: sleep_def suspend_def)

lemma checkElementState_found:
  assumes t1: "transport drv DOM_getDocument (outside st) = (None, d1, a1, w1)"
    and t2: "transport drv (DOM_querySelector (dom_root drv w1) sel) w1 = (None, d2, a2, w2)"
    and n: "dom_query drv w2 (dom_root drv w1) sel \<noteq> None"
      "dom_query drv w2 (dom_root drv w1) sel \<noteq> Some 0"
    and t3: "transport drv (Runtime_evaluate (ElementProbe sel)) w2 = (None, d3, a3, w3)"
    and el: "page_querySelector (page_of drv w3) sel = Inr (Some el)"
    and t4: "timer drv STABILITY_CHECK_MS w3 = (late, a4, w4)"
    and t5: "transport drv (Runtime_evaluate (RectProbe sel)) w4 = (f5, d5, a5, w5)"
  shows "fst (checkElementState drv sel st) =
           Inr \<lparr>visible = isVisible el, enabled = isEnabled el,
                stable =
                  (f5 = None \<and>
                   (case page_querySelector (page_of drv w5) sel of
                      Inr (Some el') \<Rightarrow>
                        Math_abs (js_minus (rect_x (el_rect el')) (rect_x (el_rect el))) < 1 \<and>
                        Math_abs (js_minus (rect_y (el_rect el')) (rect_y (el_rect el))) < 1 \<and>
                        Math_abs (js_minus (rect_width (el_rect el')) (rect_width (el_rect el))) < 1 \<and>
                        Math_abs (js_minus (rect_height (el_rect el')) (rect_height (el_rect el))) < 1
                    | _ \<Rightarrow> False)),
                boundingBox = Some (el_rect el)\<rparr>"
proof -
  from getDocument_cases [OF t1] obtain st1 where
    g: "client_DOM_getDocument drv st = (Inr (dom_root drv w1), st1)"
    and o1: "outside st1 = w1" by auto
  from querySelector_cases [of drv "dom_root drv w1" sel st1] t2 o1 obtain st2 where
    q: "client_DOM_querySelector drv (dom_root drv w1) sel st1 =
          (Inr (dom_query drv w2 (dom_root drv w1) sel), st2)"
    and o2: "outside st2 = w2" by auto
  from evaluate_cases_state [of drv "ElementProbe sel" st2] t3 o2 obtain st3 where
    e: "client_Runtime_evaluate drv (ElementProbe sel) st2 =
          (Inr (run_script (page_of drv w3) (ElementProbe sel)), st3)"
    and o3: "outside st3 = w3" by auto
  have r: "run_script (page_of drv w3) (ElementProbe sel) =
             \<lparr>exceptionDetails = None,
              result_value = JProbe (isVisible el) (isEnabled el) (el_rect el)\<rparr>"
    using el by simp
  have e': "client_Runtime_evaluate drv (ElementProbe sel) st2 =
          (Inr \<lparr>exceptionDetails = None,
                result_value = JProbe (isVisible el) (isEnabled el) (el_rect el)\<rparr>, st3)"
    by (simp only: e r)
  have o4: "outside (sleep drv STABILITY_CHECK_MS st3) = w4"
    using t4 o3 by (simp add: outside_sleep)
  have t5': "transport drv (Runtime_evaluate (RectProbe sel))
               (outside (sleep drv STABILITY_CHECK_MS st3)) = (f5, d5, a5, w5)"
    using t5 o4 by simp
  obtain b st4 where cs: "checkStability drv sel (Some (el_rect el)) st3 = (b, st4)"
    by fastforce
  have b: "b = (f5 = None \<and>
                (case page_querySelector (page_of drv w5) sel of
                   Inr (Some el') \<Rightarrow>
                     \<bar>rect_x (el_rect el') - rect_x (el_rect el)\<bar> < 1 - 1 / 2 ^ 54 \<and>
                     \<bar>rect_y (el_rect el') - rect_y (el_rect el)\<bar> < 1 - 1 / 2 ^ 54 \<and>
                     \<bar>rect_width (el_rect el') - rect_width (el_rect el)\<bar> < 1 - 1 / 2 ^ 54 \<and>
                     \<bar>rect_height (el_rect el') - rect_height (el_rect el)\<bar> < 1 - 1 / 2 ^ 54
                 | _ \<Rightarrow> False))"
    using checkStability_characterised [OF t5', of "el_rect el"] cs by simp
  have "fst (checkElementState drv sel st) =
          Inr \<lparr>visible = isVisible el, enabled = isEnabled el, stable = b,
               boundingBox = Some (el_rect el)\<rparr>"
    using n by (auto simp: checkElementState_def checkElementState_try_def g q e' cs)
  then show ?thesis
    by (simp add: b within_tolerance cong: sum.case_cong option.case_cong)
qed


text \<open>
  C6 (as amended). \<open>checkElementState\<close> never throws. When selector resolution rejects or
  resolves to no element, when the first in-page probe rejects, throws or returns no value,
  it returns the terminal state with \<open>visible\<close>, \<open>enabled\<close> and \<open>stable\<close> all false; any
  exception raised in the body of its \<open>try\<close> ends in that state. When the first probe
  returns its object, \<open>visible\<close>, \<open>enabled\<close> and \<open>boundingBox\<close> are those of the first probe
  whatever happens in the stability probe, which decides \<open>stable\<close> only: \<open>stable\<close> is true
  exactly when the stability probe, run after the timer has fired, resolves, finds the
  element and sees each field of its box less than 1 away from the first box. So when the
  stability probe rejects, \<open>stable\<close> is false and the state is not ready. The ready verdict
  is the conjunction of \<open>visible\<close>, \<open>enabled\<close> and \<open>stable\<close>, so the terminal state is never
  ready.
\<close>

theorem checkElementState_never_throws:
  "(\<exists>s. fst (checkElementState drv sel st) = Inr s) \<and>
   (fst (checkElementState_try drv sel st) = Inl e \<longrightarrow>
      fst (checkElementState drv sel st) = Inr not_found_state) \<and>
   (transport drv DOM_getDocument (outside st) = (f1, d1, a1, w1) \<and>
    transport drv (DOM_querySelector (dom_root drv w1) sel) w1 = (f2, d2, a2, w2) \<and>
    transport drv (Runtime_evaluate (ElementProbe sel)) w2 = (f3, d3, a3, w3) \<longrightarrow>
      (f1 \<noteq> None \<or> f2 \<noteq> None \<or>
       dom_query drv w2 (dom_root drv w1) sel = None \<or>
       dom_query drv w2 (dom_root drv w1) sel = Some 0 \<or>
       f3 \<noteq> None \<or> (\<forall>el. page_querySelector (page_of drv w3) sel \<noteq> Inr (Some el))
       \<longrightarrow> fst (checkElementState drv sel st) = Inr not_found_state) \<and>
      (f1 = None \<and> f2 = None \<and>
       dom_query drv w2 (dom_root drv w1) sel \<noteq> None \<and>
       dom_query drv w2 (dom_root drv w1) sel \<noteq> Some 0 \<and>
       f3 = None \<and> page_querySelector (page_of drv w3) sel = Inr (Some el)
       \<longrightarrow> (\<exists>s. fst (checkElementState drv sel st) = Inr s \<and>
               visible s = isVisible el \<and> enabled s = isEnabled el \<and>
               boundingBox s = Some (el_rect el))) \<and>
      (f1 = None \<and> f2 = None \<and>
       dom_query drv w2 (dom_root drv w1) sel \<noteq> None \<and>
       dom_query drv w2 (dom_root drv w1) sel \<noteq> Some 0 \<and>
       f3 = None \<and> page_querySelector (page_of drv w3) sel = Inr (Some el) \<and>
       timer drv STABILITY_CHECK_MS w3 = (late, a4, w4) \<and>
       transport drv (Runtime_evaluate (RectProbe sel)) w4 = (f5, d5, a5, w5)
       \<longrightarrow> fst (checkElementState drv sel st) =
             Inr \<lparr>visible = isVisible el, enabled = isEnabled el,
                  stable =
                    (f5 = None \<and>
                     (case page_querySelector (page_of drv w5) sel of
                        Inr (Some el') \<Rightarrow>
                          Math_abs (js_minus (rect_x (el_rect el')) (rect_x (el_rect el))) < 1 \<and>
                          Math_abs (js_minus (rect_y (el_rect el')) (rect_y (el_rect el))) < 1 \<and>
                          Math_abs (js_minus (rect_width (el_rect el')) (rect_width (el_rect el))) < 1 \<and>
                          Math_abs (js_minus (rect_height (el_rect el')) (rect_height (el_rect el))) < 1
                      | _ \<Rightarrow> False)),
                  boundingBox = Some (el_rect el)\<rparr> \<and>
           (f5 \<noteq> None \<longrightarrow>
              fst (checkElementState drv sel st) =
                Inr \<lparr>visible = isVisible el, enabled = isEnabled el, stable = False,
                     boundingBox = Some (el_rect el)\<rparr> \<and>
              \<not> isReady \<lparr>visible = isVisible el, enabled = isEnabled el, stable = False,
                          boundingBox = Some (el_rect el)\<rparr>))) \<and>
   isReady state = (visible state \<and> enabled state \<and> stable state) \<and>
   \<not> isReady not_found_state"
proof (intro conjI impI)
  show "\<exists>s. fst (checkElementState drv sel st) = Inr s"
    by (rule checkElementState_settles)
next
  assume "fst (checkElementState_try drv sel st) = Inl e"
  then show "fst (checkElementState drv sel st) = Inr not_found_state"
    by (rule checkElementState_catch)
next
  assume t: "transport drv DOM_getDocument (outside st) = (f1, d1, a1, w1) \<and>
    transport drv (DOM_querySelector (dom_root drv w1) sel) w1 = (f2, d2, a2, w2) \<and>
    transport drv (Runtime_evaluate (ElementProbe sel)) w2 = (f3, d3, a3, w3)"
  note ph = checkElementState_phases [of drv st f1 d1 a1 w1 sel f2 d2 a2 w2 f3 d3 a3 w3 el]
  {
    assume "f1 \<noteq> None \<or> f2 \<noteq> None \<or>
       dom_query drv w2 (dom_root drv w1) sel = None \<or>
       dom_query drv w2 (dom_root drv w1) sel = Some 0 \<or>
       f3 \<noteq> None \<or> (\<forall>el. page_querySelector (page_of drv w3) sel \<noteq> Inr (Some el))"
    with ph t show "fst (checkElementState drv sel st) = Inr not_found_state" by blast
  }
  {
    assume "f1 = None \<and> f2 = None \<and>
       dom_query drv w2 (dom_root drv w1) sel \<noteq> None \<and>
       dom_query drv w2 (dom_root drv w1) sel \<noteq> Some 0 \<and>
       f3 = None \<and> page_querySelector (page_of drv w3) sel = Inr (Some el)"
    with ph t show "\<exists>s. fst (checkElementState drv sel st) = Inr s \<and>
               visible s = isVisible el \<and> enabled s = isEnabled el \<and>
               boundingBox s = Some (el_rect el)" by blast
  }
  {
    assume h: "f1 = None \<and> f2 = None \<and>
       dom_query drv w2 (dom_root drv w1) sel \<noteq> None \<and>
       dom_query drv w2 (dom_root drv w1) sel \<noteq> Some 0 \<and>
       f3 = None \<and> page_querySelector (page_of drv w3) sel = Inr (Some el) \<and>
       timer drv STABILITY_CHECK_MS w3 = (late, a4, w4) \<and>
       transport drv (Runtime_evaluate (RectProbe sel)) w4 = (f5, d5, a5, w5)"
    have found: "fst (checkElementState drv sel st) =
             Inr \<lparr>visible = isVisible el, enabled = isEnabled el,
                  stable =
                    (f5 = None \<and>
                     (case page_querySelector (page_of drv w5) sel of
                        Inr (Some el') \<Rightarrow>
                          Math_abs (js_minus (rect_x (el_rect el')) (rect_x (el_rect el))) < 1 \<and>
                          Math_abs (js_minus (rect_y (el_rect el')) (rect_y (el_rect el))) < 1 \<and>
                          Math_abs (js_minus (rect_width (el_rect el')) (rect_width (el_rect el))) < 1 \<and>
                          Math_abs (js_minus (rect_height (el_rect el')) (rect_height (el_rect el))) < 1
                      | _ \<Rightarrow> False)),
                  boundingBox = Some (el_rect el)\<rparr>"
      by (rule checkElementState_found
                 [where ?d1.0 = d1 and ?a1.0 = a1 and ?w1.0 = w1 and ?d2.0 = d2 and ?a2.0 = a2
                    and ?w2.0 = w2 and ?d3.0 = d3 and ?a3.0 = a3 and ?w3.0 = w3 and late = late
                    and ?a4.0 = a4 and ?w4.0 = w4 and ?d5.0 = d5 and ?a5.0 = a5 and ?w5.0 = w5])
         (use t h in simp_all)
    then show "fst (checkElementState drv sel st) =
             Inr \<lparr>visible = isVisible el, enabled = isEnabled el,
                  stable =
                    (f5 = None \<and>
                     (case page_querySelector (page_of drv w5) sel of
                        Inr (Some el') \<Rightarrow>
                          Math_abs (js_minus (rect_x (el_rect el')) (rect_x (el_rect el))) < 1 \<and>
                          Math_abs (js_minus (rect_y (el_rect el')) (rect_y (el_rect el))) < 1 \<and>
                          Math_abs (js_minus (rect_width (el_rect el')) (rect_width (el_rect el))) < 1 \<and>
                          Math_abs (js_minus (rect_height (el_rect el')) (rect_height (el_rect el))) < 1
                      | _ \<Rightarrow> False)),
                  boundingBox = Some (el_rect el)\<rparr>" .
    {
      assume "f5 \<noteq> None"
      with found show "fst (checkElementState drv sel st) =
                Inr \<lparr>visible = isVisible el, enabled = isEnabled el, stable = False,
                     boundingBox = Some (el_rect el)\<rparr>" by simp
      show "\<not> isReady \<lparr>visible = isVisible el, enabled = isEnabled el, stable = False,
                          boundingBox = Some (el_rect el)\<rparr>" by (simp add: isReady_def)
    }
  }
next
  show "isReady state = (visible state \<and> enabled state \<and> stable state)"
    by (simp add: isReady_def)
next
  show "\<not> isReady not_found_state"
    by (simp add: isReady_def not_found_state_def)
qed

definition stability_probe_rejected :: "cdp_method \<Rightarrow> nat \<Rightarrow> string option" where
  "stability_probe_rejected m w =
     (case m of Runtime_evaluate (RectProbe sel) \<Rightarrow> Some ''Target closed'' | _ \<Rightarrow> None)"

definition still_box :: rect where
  "still_box = rect_of 100 200 50 30"

theorem checkElementState_never_throws_witness:
  "fst (checkElementState_try (button_driver selector_rejected 0 still_box still_box)
          ''#btn'' fresh_world) = Inl ''DOM Error while querying'' \<and>
   fst (checkElementState (button_driver selector_rejected 0 still_box still_box)
          ''#btn'' fresh_world) = Inr not_found_state \<and>
   fst (checkElementState (button_driver always_up 0 still_box still_box)
          ''#btn'' fresh_world) =
     Inr \<lparr>visible = True, enabled = True, stable = True, boundingBox = Some still_box\<rparr> \<and>
   isReady \<lparr>visible = True, enabled = True, stable = True, boundingBox = Some still_box\<rparr> \<and>
   transport (button_driver stability_probe_rejected 0 still_box still_box)
     (Runtime_evaluate (RectProbe ''#btn'')) 4 = (Some ''Target closed'', 1, [], 5) \<and>
   fst (checkElementState (button_driver stability_probe_rejected 0 still_box still_box)
          ''#btn'' fresh_world) =
     Inr \<lparr>visible = True, enabled = True, stable = False, boundingBox = Some still_box\<rparr> \<and>
   \<not> isReady \<lparr>visible = True, enabled = True, stable = False, boundingBox = Some still_box\<rparr> \<and>
   \<not> isReady not_found_state"
proof -
  let ?bad = "button_driver selector_rejected 0 still_box still_box"
  let ?good = "button_driver always_up 0 still_box still_box"
  let ?shaky = "button_driver stability_probe_rejected 0 still_box still_box"
  let ?ready = "\<lparr>visible = True, enabled = True, stable = True, boundingBox = Some still_box\<rparr>"
  have thrown: "fst (checkElementState_try ?bad ''#btn'' fresh_world) = Inl ''DOM Error while querying''"
    by (simp add: readiness_defs run_defs selector_rejected_def still_box_def)
  have bad: "transport ?bad DOM_getDocument (outside fresh_world) = (None, 1, [], 1) \<and>
      transport ?bad (DOM_querySelector (dom_root ?bad 1) ''#btn'') 1 =
        (Some ''DOM Error while querying'', 1, [], 2) \<and>
      transport ?bad (Runtime_evaluate (ElementProbe ''#btn'')) 2 = (None, 1, [], 3)"
    by (simp add: readiness_defs run_defs selector_rejected_def)
  have good: "transport ?good DOM_getDocument (outside fresh_world) = (None, 1, [], 1) \<and>
      transport ?good (DOM_querySelector (dom_root ?good 1) ''#btn'') 1 = (None, 1, [], 2) \<and>
      transport ?good (Runtime_evaluate (ElementProbe ''#btn'')) 2 = (None, 1, [], 3)"
    by (simp add: readiness_defs run_defs)
  have good': "timer ?good STABILITY_CHECK_MS 3 = (0, [], 4) \<and>
      transport ?good (Runtime_evaluate (RectProbe ''#btn'')) 4 = (None, 1, [], 5)"
    by (simp add: readiness_defs run_defs)
  have found: "dom_query ?good 2 (dom_root ?good 1) ''#btn'' \<noteq> None \<and>
      dom_query ?good 2 (dom_root ?good 1) ''#btn'' \<noteq> Some 0 \<and>
      page_querySelector (page_of ?good 3) ''#btn'' = Inr (Some (button still_box))"
    by (simp add: readiness_defs run_defs)
  have shaky: "transport ?shaky DOM_getDocument (outside fresh_world) = (None, 1, [], 1) \<and>
      transport ?shaky (DOM_querySelector (dom_root ?shaky 1) ''#btn'') 1 = (None, 1, [], 2) \<and>
      transport ?shaky (Runtime_evaluate (ElementProbe ''#btn'')) 2 = (None, 1, [], 3)"
    by (simp add: readiness_defs run_defs stability_probe_rejected_def)
  have shaky': "timer ?shaky STABILITY_CHECK_MS 3 = (0, [], 4) \<and>
      transport ?shaky (Runtime_evaluate (RectProbe ''#btn'')) 4 = (Some ''Target closed'', 1, [], 5)"
    by (simp add: readiness_defs run_defs stability_probe_rejected_def)
  have found': "dom_query ?shaky 2 (dom_root ?shaky 1) ''#btn'' \<noteq> None \<and>
      dom_query ?shaky 2 (dom_root ?shaky 1) ''#btn'' \<noteq> Some 0 \<and>
      page_querySelector (page_of ?shaky 3) ''#btn'' = Inr (Some (button still_box))"
    by (simp add: readiness_defs run_defs)
  have flags: "isVisible (button still_box)" "isEnabled (button still_box)"
      "el_rect (button still_box) = still_box"
    by (simp_all add: readiness_defs still_box_def)
  have run: "fst (checkElementState ?good ''#btn'' fresh_world) = Inr ?ready"
    by (simp add: readiness_defs run_defs still_box_def)
  note a = checkElementState_never_throws
    [where drv = ?bad and sel = "''#btn''" and st = fresh_world
       and e = "''DOM Error while querying''"
       and ?f1.0 = None and ?d1.0 = 1 and ?a1.0 = "[]" and ?w1.0 = 1
       and ?f2.0 = "Some ''DOM Error while querying''" and ?d2.0 = 1 and ?a2.0 = "[]" and ?w2.0 = 2
       and ?f3.0 = None and ?d3.0 = 1 and ?a3.0 = "[]" and ?w3.0 = 3
       and el = "button still_box" and state = ?ready]
  note b = checkElementState_never_throws
    [where drv = ?good and sel = "''#btn''" and st = fresh_world
       and ?f1.0 = None and ?d1.0 = 1 and ?a1.0 = "[]" and ?w1.0 = 1
       and ?f2.0 = None and ?d2.0 = 1 and ?a2.0 = "[]" and ?w2.0 = 2
       and ?f3.0 = None and ?d3.0 = 1 and ?a3.0 = "[]" and ?w3.0 = 3
       and el = "button still_box" and late = 0 and ?a4.0 = "[]" and ?w4.0 = 4
       and ?f5.0 = None and ?d5.0 = 1 and ?a5.0 = "[]" and ?w5.0 = 5 and state = ?ready]
  note c = checkElementState_never_throws
    [where drv = ?shaky and sel = "''#btn''" and st = fresh_world
       and ?f1.0 = None and ?d1.0 = 1 and ?a1.0 = "[]" and ?w1.0 = 1
       and ?f2.0 = None and ?d2.0 = 1 and ?a2.0 = "[]" and ?w2.0 = 2
       and ?f3.0 = None and ?d3.0 = 1 and ?a3.0 = "[]" and ?w3.0 = 3
       and el = "button still_box" and late = 0 and ?a4.0 = "[]" and ?w4.0 = 4
       and ?f5.0 = "Some ''Target closed''" and ?d5.0 = 1 and ?a5.0 = "[]" and ?w5.0 = 5
       and state = ?ready]
  have "fst (checkElementState ?bad ''#btn'' fresh_world) = Inr not_found_state"
    using a thrown by blast
  moreover have "\<exists>s. fst (checkElementState ?good ''#btn'' fresh_world) = Inr s \<and>
      visible s = isVisible (button still_box) \<and> enabled s = isEnabled (button still_box) \<and>
      boundingBox s = Some (el_rect (button still_box))"
    using b good found by blast
  moreover have "fst (checkElementState ?shaky ''#btn'' fresh_world) =
      Inr \<lparr>visible = True, enabled = True, stable = False, boundingBox = Some still_box\<rparr> \<and>
      \<not> isReady \<lparr>visible = True, enabled = True, stable = False, boundingBox = Some still_box\<rparr>"
    using c [THEN conjunct2, THEN conjunct2, THEN conjunct1, THEN mp, OF shaky,
             THEN conjunct2, THEN conjunct2, THEN mp, THEN conjunct2, THEN mp]
          shaky' found' flags
    by simp
  moreover have "isReady ?ready" "\<not> isReady not_found_state"
    using b by simp_all
  ultimately show ?thesis using thrown run shaky' by blast
qed

text \<open>
  C6, counterexample to the claim as stated: the stability probe rejects. The check does
  not return the terminal state; it keeps what the first probe saw and only reports the
  element as not stable.
\<close>

theorem checkElementState_keeps_flags_when_stability_probe_fails:
  "fst (transport (button_driver stability_probe_rejected 0 still_box still_box)
          (Runtime_evaluate (RectProbe ''#btn'')) 4) = Some ''Target closed'' \<and>
   checkElementState (button_driver stability_probe_rejected 0 still_box still_box)
       ''#btn'' fresh_world =
     (Inr \<lparr>visible = True, enabled = True, stable = False, boundingBox = Some still_box\<rparr>,
      fresh_world\<lparr>clock := 104, outside := 5,
        calls := [DOM_getDocument, DOM_querySelector 1 ''#btn'',
                  Runtime_evaluate (ElementProbe ''#btn''),
                  Runtime_evaluate (RectProbe ''#btn'')]\<rparr>)"
  by (simp add: readiness_defs run_defs stability_probe_rejected_def still_box_def)


section \<open>ChromeController.ensureConnected\<close>

text \<open>
  Several callers may be inside \<open>ensureConnected\<close> at once: each runs until its next
  \<open>await\<close>, and another caller runs while it is suspended. A caller is therefore a task
  that records where it is suspended, and the controller's fields are shared by all tasks.
  One step resumes one task with the outcome of what it awaited and runs it to its next
  \<open>await\<close>. What is awaited is outside the controller (\<open>CDP.List\<close>, \<open>CDP(...)\<close>,
  \<open>chromeLauncher.launch\<close>, the four domain \<open>enable\<close> calls, the timers), so its outcome
  comes with the step. Steps may come in any order: which suspended task is resumed next,
  and so how the timers and the awaited operations are ordered in time, is left open. The
  fields \<open>maxRetries\<close> and \<open>retryDelay\<close> are never assigned after their initialisation.
\<close>

datatype outcome = Fulfilled nat | Failed string

text \<open>The suspension points of \<open>connect\<close>, in source order.\<close>

datatype connect_pc =
  AwaitList
| AwaitAttach
| AwaitLaunch
| AwaitAttachLaunched
| AwaitPageEnable
| AwaitRuntimeEnable
| AwaitNetworkEnable
| AwaitDOMEnable

text \<open>
  The suspension points of \<open>ensureConnected\<close>: not yet called; sleeping \<open>retryDelay\<close>
  because a reconnection is in flight; inside \<open>connect\<close> in the given attempt; sleeping
  \<open>retryDelay\<close> after the given attempt failed; returned; thrown.
\<close>

datatype task =
  NotCalled
| Waiting
| Connecting nat connect_pc
| BackingOff nat
| Resolved
| Rejected string

text \<open>
  The trace of a run: each call of \<open>connect\<close> by a caller and how it ended (it returned,
  or it threw), and each timer set, with the caller and the delay.
\<close>

datatype action =
  ConnectCalled nat
| ConnectReturned nat
| ConnectRejected nat
| BackoffSleep nat nat
| WaitSleep nat nat

record controller =
  client :: "nat option"
  chrome :: "nat option"
  reconnecting :: bool
  tasks :: "task list"
  actions :: "action list"

definition MAX_RECONNECTION_RETRIES :: nat where
  "MAX_RECONNECTION_RETRIES = 5"

definition RECONNECTION_RETRY_DELAY_MS :: nat where
  "RECONNECTION_RETRY_DELAY_MS = 2000"

definition maxRetries :: nat where
  "maxRetries = MAX_RECONNECTION_RETRIES"

definition retryDelay :: nat where
  "retryDelay = RECONNECTION_RETRY_DELAY_MS"

definition set_task :: "nat \<Rightarrow> task \<Rightarrow> controller \<Rightarrow> controller" where
  "set_task i t s = s\<lparr>tasks := (tasks s)[i := t]\<rparr>"

definition record_action :: "action \<Rightarrow> controller \<Rightarrow> controller" where
  "record_action a s = s\<lparr>actions := actions s @ [a]\<rparr>"

text \<open>
  \<open>connect\<close> resumed at one of its suspension points. It answers where it suspends next,
  or that it resolved, or what it threw (the \<open>catch\<close> wraps every error).
\<close>

datatype connect_result = Suspended connect_pc | ConnectResolved | ConnectThrew string

definition connect_failed :: "string \<Rightarrow> connect_result" where
  "connect_failed e = ConnectThrew (''Error: Failed to connect to Chrome: '' @ e)"

fun connect_resume :: "connect_pc \<Rightarrow> outcome \<Rightarrow> controller \<Rightarrow> connect_result \<times> controller" where
  "connect_resume pc (Failed e) s = (connect_failed e, s)"
| "connect_resume AwaitList (Fulfilled n) s =
     (if n > 0 then (Suspended AwaitAttach, s) else (Suspended AwaitLaunch, s))"
| "connect_resume AwaitAttach (Fulfilled h) s = (Suspended AwaitPageEnable, s\<lparr>client := Some h\<rparr>)"
| "connect_resume AwaitLaunch (Fulfilled p) s = (Suspended AwaitAttachLaunched, s\<lparr>chrome := Some p\<rparr>)"
| "connect_resume AwaitAttachLaunched (Fulfilled h) s =
     (Suspended AwaitPageEnable, s\<lparr>client := Some h\<rparr>)"
| "connect_resume AwaitPageEnable (Fulfilled u) s = (Suspended AwaitRuntimeEnable, s)"
| "connect_resume AwaitRuntimeEnable (Fulfilled u) s = (Suspended AwaitNetworkEnable, s)"
| "connect_resume AwaitNetworkEnable (Fulfilled u) s = (Suspended AwaitDOMEnable, s)"
| "connect_resume AwaitDOMEnable (Fulfilled u) s = (ConnectResolved, s)"

text \<open>One turn of the retry loop up to \<open>await this.connect()\<close>, which suspends in \<open>CDP.List\<close>.\<close>

definition start_attempt :: "nat \<Rightarrow> nat \<Rightarrow> controller \<Rightarrow> controller" where
  "start_attempt i attempt s =
     set_task i (Connecting attempt AwaitList) (record_action (ConnectCalled i) s)"

text \<open>\<open>ensureConnected\<close> from its first line to its first \<open>await\<close> or \<open>return\<close>.\<close>

definition enter :: "nat \<Rightarrow> controller \<Rightarrow> controller" where
  "enter i s =
     (if client s \<noteq> None then set_task i Resolved s
      else if reconnecting s
      then set_task i Waiting (record_action (WaitSleep i retryDelay) s)
      else start_attempt i 1 (s\<lparr>reconnecting := True\<rparr>))"

text \<open>What the retry loop does when \<open>connect\<close> has settled in the given attempt.\<close>

definition after_connect :: "nat \<Rightarrow> nat \<Rightarrow> connect_result \<Rightarrow> controller \<Rightarrow> controller" where
  "after_connect i attempt r s =
     (case r of
        Suspended pc \<Rightarrow> set_task i (Connecting attempt pc) s
      | ConnectResolved \<Rightarrow>
          set_task i Resolved ((record_action (ConnectReturned i) s)\<lparr>reconnecting := False\<rparr>)
      | ConnectThrew e \<Rightarrow>
          if attempt < maxRetries
          then set_task i (BackingOff attempt)
                 (record_action (BackoffSleep i retryDelay) (record_action (ConnectRejected i) s))
          else set_task i
                 (Rejected ''Error: Failed to reconnect to Chromium after maximum retries'')
                 ((record_action (ConnectRejected i) s)\<lparr>reconnecting := False\<rparr>))"


definition resume :: "nat \<Rightarrow> outcome \<Rightarrow> controller \<Rightarrow> controller option" where
  "resume i out s =
     (if i < length (tasks s)
      then (case tasks s ! i of
              NotCalled \<Rightarrow> Some (enter i s)
            | Waiting \<Rightarrow> Some (enter i s)
            | Connecting attempt pc \<Rightarrow>
                (case connect_resume pc out s of (r, s1) \<Rightarrow> Some (after_connect i attempt r s1))
            | BackingOff attempt \<Rightarrow> Some (start_attempt i (attempt + 1) s)
            | Resolved \<Rightarrow> None
            | Rejected e \<Rightarrow> None)
      else None)"

text \<open>
  The other thing that can happen between two steps: the handler that \<open>connect\<close> put on
  the client's \<open>disconnect\<close> event runs and clears the handle.
\<close>

datatype event = Resume nat outcome | Disconnect

fun step :: "event \<Rightarrow> controller \<Rightarrow> controller option" where
  "step (Resume i out) s = resume i out s"
| "step Disconnect s = Some (s\<lparr>client := None\<rparr>)"

fun run :: "event list \<Rightarrow> controller \<Rightarrow> controller option" where
  "run [] s = Some s"
| "run (e # es) s = (case step e s of None \<Rightarrow> None | Some s1 \<Rightarrow> run es s1)"

text \<open>The controller right after a disconnect, with \<open>n\<close> calls about to be made.\<close>

definition disconnected :: "nat \<Rightarrow> controller" where
  "disconnected n =
     \<lparr>client = None, chrome = None, reconnecting = False,
      tasks = replicate n NotCalled, actions = []\<rparr>"

definition connects :: "controller \<Rightarrow> nat" where
  "connects s = length (filter (\<lambda>a. case a of ConnectCalled i \<Rightarrow> True | _ \<Rightarrow> False) (actions s))"


lemmas controller_defs =
  resume_def enter_def start_attempt_def after_connect_def set_task_def record_action_def
  connect_failed_def maxRetries_def retryDelay_def MAX_RECONNECTION_RETRIES_def
  RECONNECTION_RETRY_DELAY_MS_def disconnected_def connects_def

text \<open>
  Two callers, and a browser that cannot be reached (\<open>CDP.List\<close> rejects every time).
  Caller 0 calls first and runs its five attempts; caller 1 calls while the first attempt is
  backing off, wakes up every two seconds while the sequence is in flight and, once it is
  over, starts a sequence of its own.
\<close>

definition refused :: outcome where
  "refused = Failed ''connect ECONNREFUSED 127.0.0.1:9222''"

definition tick :: outcome where
  "tick = Fulfilled 0"

definition two_callers_unreachable :: "event list" where
  "two_callers_unreachable =
     [Resume 0 tick, Resume 0 refused, Resume 1 tick] @
     concat (replicate 4 [Resume 1 tick, Resume 0 tick, Resume 0 refused]) @
     [Resume 1 tick, Resume 1 refused] @
     concat (replicate 4 [Resume 1 tick, Resume 1 refused])"

lemma replicate_4: "replicate 4 x = [x, x, x, x]"
  by (simp add: numeral_eq_Suc)

text \<open>
  C2, counterexample to the claim as stated: one disconnect, two concurrent callers, no
  further disconnect, and \<open>connect\<close> is invoked ten times, five by each caller in turn.
\<close>

theorem two_callers_make_ten_connect_calls:
  "Disconnect \<notin> set two_callers_unreachable \<and>
   (case run two_callers_unreachable (disconnected 2) of
      None \<Rightarrow> False
    | Some s \<Rightarrow> connects s = 10 \<and>
        tasks s = [Rejected ''Error: Failed to reconnect to Chromium after maximum retries'',
                   Rejected ''Error: Failed to reconnect to Chromium after maximum retries''])"
  by (simp add: two_callers_unreachable_def replicate_4 controller_defs refused_def tick_def
        numeral_2_eq_2)


subsection \<open>One sequence at a time\<close>

definition in_sequence :: "task \<Rightarrow> bool" where
  "in_sequence t = (case t of Connecting k pc \<Rightarrow> True | BackingOff k \<Rightarrow> True | _ \<Rightarrow> False)"

definition is_rejected :: "task \<Rightarrow> bool" where
  "is_rejected t = (case t of Rejected e \<Rightarrow> True | _ \<Rightarrow> False)"

definition rejections :: "controller \<Rightarrow> nat" where
  "rejections s = length (filter is_rejected (tasks s))"

definition attempt_of :: "task \<Rightarrow> nat" where
  "attempt_of t = (case t of Connecting k pc \<Rightarrow> k | BackingOff k \<Rightarrow> k | _ \<Rightarrow> 0)"

lemma task_tests [simp]:
  "in_sequence NotCalled = False" "in_sequence Waiting = False"
  "in_sequence (Connecting k pc) = True" "in_sequence (BackingOff k) = True"
  "in_sequence Resolved = False" "in_sequence (Rejected e) = False"
  "is_rejected NotCalled = False" "is_rejected Waiting = False"
  "is_rejected (Connecting k pc) = False" "is_rejected (BackingOff k) = False"
  "is_rejected Resolved = False" "is_rejected (Rejected e) = True"
  "attempt_of (Connecting k pc) = k" "attempt_of (BackingOff k) = k"
  by (simp_all add: in_sequence_def is_rejected_def attempt_of_def)

definition attached :: "connect_pc \<Rightarrow> bool" where
  "attached pc = (pc = AwaitPageEnable \<or> pc = AwaitRuntimeEnable \<or> pc = AwaitNetworkEnable \<or>
                  pc = AwaitDOMEnable)"

definition attempt_ok :: "controller \<Rightarrow> task \<Rightarrow> bool" where
  "attempt_ok s t =
     (case t of
        Connecting k pc \<Rightarrow> 1 \<le> k \<and> k \<le> maxRetries \<and> (\<not> attached pc \<or> client s \<noteq> None)
      | BackingOff k \<Rightarrow> 1 \<le> k \<and> k < maxRetries
      | _ \<Rightarrow> False)"

definition others_out :: "controller \<Rightarrow> nat \<Rightarrow> bool" where
  "others_out s i = (\<forall>j < length (tasks s). j = i \<or> \<not> in_sequence (tasks s ! j))"

definition owner_ok :: "controller \<Rightarrow> nat \<Rightarrow> bool" where
  "owner_ok s i =
     (i < length (tasks s) \<and> others_out s i \<and> reconnecting s \<and> attempt_ok s (tasks s ! i) \<and>
      connects s \<le> maxRetries * rejections s + attempt_of (tasks s ! i))"

definition idle_ok :: "controller \<Rightarrow> bool" where
  "idle_ok s =
     ((\<forall>j < length (tasks s). \<not> in_sequence (tasks s ! j)) \<and> \<not> reconnecting s \<and>
      (connects s \<le> maxRetries * rejections s \<or>
       client s \<noteq> None \<and> connects s \<le> maxRetries * rejections s + maxRetries))"

definition serialised :: "controller \<Rightarrow> bool" where
  "serialised s = (idle_ok s \<or> (\<exists>i. owner_ok s i))"

lemma filter_length_update:
  "i < length xs \<Longrightarrow>
     length (filter P (xs[i := y])) + (if P (xs ! i) then 1 else 0) =
     length (filter P xs) + (if P y then 1 else 0)"
proof (induction xs arbitrary: i)
  case Nil
  then show ?case by simp
next
  case (Cons x xs)
  show ?case
  proof (cases i)
    case 0
    then show ?thesis by simp
  next
    case (Suc j)
    with Cons.prems have "j < length xs" by simp
    from Cons.IH [OF this] Suc show ?thesis by simp
  qed
qed

lemma set_task_fields [simp]:
  "client (set_task i t s) = client s"
  "chrome (set_task i t s) = chrome s"
  "reconnecting (set_task i t s) = reconnecting s"
  "actions (set_task i t s) = actions s"
  "tasks (set_task i t s) = (tasks s)[i := t]"
  "connects (set_task i t s) = connects s"
  by (simp_all add: set_task_def connects_def)

lemma record_action_fields [simp]:
  "client (record_action a s) = client s"
  "chrome (record_action a s) = chrome s"
  "reconnecting (record_action a s) = reconnecting s"
  "tasks (record_action a s) = tasks s"
  "actions (record_action a s) = actions s @ [a]"
  "rejections (record_action a s) = rejections s"
  by (simp_all add: record_action_def rejections_def)

lemma connects_record_action [simp]:
  "connects (record_action (ConnectCalled i) s) = Suc (connects s)"
  "connects (record_action (ConnectReturned i) s) = connects s"
  "connects (record_action (ConnectRejected i) s) = connects s"
  "connects (record_action (BackoffSleep i d) s) = connects s"
  "connects (record_action (WaitSleep i d) s) = connects s"
  by (simp_all add: record_action_def connects_def)

lemma connects_flag [simp]:
  "connects (s\<lparr>reconnecting := b\<rparr>) = connects s"
  "connects (s\<lparr>client := c\<rparr>) = connects s"
  "connects (s\<lparr>chrome := c\<rparr>) = connects s"
  "rejections (s\<lparr>reconnecting := b\<rparr>) = rejections s"
  "rejections (s\<lparr>client := c\<rparr>) = rejections s"
  "rejections (s\<lparr>chrome := c\<rparr>) = rejections s"
  by (simp_all add: connects_def rejections_def)

lemma rejections_set_task:
  "i < length (tasks s) \<Longrightarrow> \<not> is_rejected (tasks s ! i) \<Longrightarrow>
     rejections (set_task i t s) = rejections s + (if is_rejected t then 1 else 0)"
  using filter_length_update [of i "tasks s" is_rejected t]
  by (simp add: rejections_def)

lemma connect_resume_fields:
  "connect_resume pc out s = (r, s1) \<Longrightarrow>
     tasks s1 = tasks s \<and> actions s1 = actions s \<and> reconnecting s1 = reconnecting s \<and>
     connects s1 = connects s \<and> rejections s1 = rejections s \<and>
     (client s \<noteq> None \<longrightarrow> client s1 \<noteq> None) \<and>
     (case r of Suspended pc' \<Rightarrow> \<not> attached pc' \<or> client s1 \<noteq> None \<or> (attached pc \<and> client s = None)
      | _ \<Rightarrow> True)"
  by (cases pc; cases out)
     (auto simp: attached_def connects_def rejections_def connect_failed_def split: if_splits)


lemma owner_of_sequence:
  assumes "serialised s" "i < length (tasks s)" "in_sequence (tasks s ! i)"
  shows "owner_ok s i"
proof -
  from assms have "\<not> idle_ok s" by (auto simp: idle_ok_def)
  with assms(1) obtain o' where o: "owner_ok s o'" by (auto simp: serialised_def)
  with assms(2,3) have "o' = i" by (auto simp: owner_ok_def others_out_def)
  with o show ?thesis by simp
qed

lemma owner_is_in_sequence: "owner_ok s i \<Longrightarrow> in_sequence (tasks s ! i)"
  by (auto simp: owner_ok_def attempt_ok_def split: task.splits)

lemma leave_keeps_serialised:
  assumes "serialised s" "i < length (tasks s)"
    and "\<not> in_sequence (tasks s ! i)" "\<not> is_rejected (tasks s ! i)"
    and "\<not> in_sequence t" "\<not> is_rejected t"
    and same: "tasks s1 = tasks s" "client s1 = client s" "reconnecting s1 = reconnecting s"
      "connects s1 = connects s"
  shows "serialised (set_task i t s1)"
proof -
  have r: "rejections (set_task i t s1) = rejections s"
    using rejections_set_task [of i s1 t] assms(2,4,6) same(1) by (simp add: rejections_def)
  from assms(1) show ?thesis unfolding serialised_def
  proof
    assume "idle_ok s"
    then have "idle_ok (set_task i t s1)"
      using assms(2,5) same by (auto simp: idle_ok_def r nth_list_update)
    then show "idle_ok (set_task i t s1) \<or> (\<exists>i'. owner_ok (set_task i t s1) i')" by simp
  next
    assume "\<exists>o'. owner_ok s o'"
    then obtain o' where o: "owner_ok s o'" by blast
    with assms(3) have ne: "o' \<noteq> i" using owner_is_in_sequence by blast
    from o ne have "owner_ok (set_task i t s1) o'"
      using assms(2,5) same
      by (auto simp: owner_ok_def others_out_def r nth_list_update attempt_ok_def
               split: task.splits)
    then show "idle_ok (set_task i t s1) \<or> (\<exists>i'. owner_ok (set_task i t s1) i')" by blast
  qed
qed

lemma enter_keeps_serialised:
  assumes "serialised s" "i < length (tasks s)"
    and "\<not> in_sequence (tasks s ! i)" "\<not> is_rejected (tasks s ! i)"
  shows "serialised (enter i s)"
proof (cases "client s \<noteq> None")
  case True
  then have e: "enter i s = set_task i Resolved s" by (simp add: enter_def)
  show ?thesis unfolding e by (rule leave_keeps_serialised [OF assms]) simp_all
next
  case False
  then have c: "client s = None" by simp
  show ?thesis
  proof (cases "reconnecting s")
    case True
    let ?s1 = "record_action (WaitSleep i retryDelay) s"
    have e: "enter i s = set_task i Waiting ?s1" using c True by (simp add: enter_def)
    show ?thesis unfolding e by (rule leave_keeps_serialised [OF assms]) simp_all
  next
    case False
    let ?s0 = "record_action (ConnectCalled i) (s\<lparr>reconnecting := True\<rparr>)"
    let ?s1 = "set_task i (Connecting 1 AwaitList) ?s0"
    have e: "enter i s = ?s1" using c False by (simp add: enter_def start_attempt_def)
    from assms(1) False have idle: "idle_ok s"
      by (auto simp: serialised_def owner_ok_def)
    have r: "rejections ?s1 = rejections s"
      using rejections_set_task [of i ?s0 "Connecting 1 AwaitList"] assms(2,4) by simp
    have "connects ?s1 = Suc (connects s)" by simp
    moreover have "connects s \<le> maxRetries * rejections s"
      using idle c by (simp add: idle_ok_def)
    ultimately have cn: "connects ?s1 \<le> maxRetries * rejections ?s1 + 1" using r by simp
    have "others_out ?s1 i"
      using idle assms(2) by (auto simp: others_out_def idle_ok_def nth_list_update)
    moreover have "attempt_ok ?s1 (tasks ?s1 ! i)"
      using assms(2)
      by (simp add: attempt_ok_def attached_def maxRetries_def MAX_RECONNECTION_RETRIES_def)
    moreover have "reconnecting ?s1" "i < length (tasks ?s1)" using assms(2) by simp_all
    moreover have "attempt_of (tasks ?s1 ! i) = 1" using assms(2) by simp
    ultimately have "owner_ok ?s1 i" using cn by (simp add: owner_ok_def)
    then show ?thesis by (auto simp: serialised_def e)
  qed
qed

lemma next_attempt_keeps_owner:
  assumes "owner_ok s i" "tasks s ! i = BackingOff k"
  shows "owner_ok (start_attempt i (Suc k) s) i"
proof -
  let ?s0 = "record_action (ConnectCalled i) s"
  let ?s1 = "set_task i (Connecting (Suc k) AwaitList) ?s0"
  have len: "i < length (tasks s)" using assms(1) by (simp add: owner_ok_def)
  have k: "1 \<le> k" "k < maxRetries" "connects s \<le> maxRetries * rejections s + k"
    using assms by (simp_all add: owner_ok_def attempt_ok_def)
  have r: "rejections ?s1 = rejections s"
    using rejections_set_task [of i ?s0 "Connecting (Suc k) AwaitList"] len assms(2) by simp
  have "connects ?s1 = Suc (connects s)" by simp
  with k r have cn: "connects ?s1 \<le> maxRetries * rejections ?s1 + Suc k" by simp
  have "others_out ?s1 i"
    using assms(1) len by (auto simp: owner_ok_def others_out_def nth_list_update)
  moreover have "attempt_ok ?s1 (tasks ?s1 ! i)"
    using len k by (simp add: attempt_ok_def attached_def)
  moreover have "reconnecting ?s1" "i < length (tasks ?s1)"
    using assms(1) by (simp_all add: owner_ok_def)
  moreover have "attempt_of (tasks ?s1 ! i) = Suc k" using len by simp
  ultimately show ?thesis using cn by (simp add: owner_ok_def start_attempt_def)
qed

lemma settled_connect_keeps_serialised:
  assumes o: "owner_ok s i" and t: "tasks s ! i = Connecting k pc"
    and c: "connect_resume pc out s = (r, s1)"
  shows "serialised (after_connect i k r s1)"
proof -
  note f = connect_resume_fields [OF c]
  have len: "i < length (tasks s1)" using o f by (simp add: owner_ok_def)
  have nr: "\<not> is_rejected (tasks s1 ! i)" using t f by simp
  have k: "1 \<le> k" "k \<le> maxRetries" "\<not> attached pc \<or> client s \<noteq> None"
    using o t by (simp_all add: owner_ok_def attempt_ok_def)
  have oth: "\<forall>j < length (tasks s1). j = i \<or> \<not> in_sequence (tasks s1 ! j)"
    using o f by (simp add: owner_ok_def others_out_def)
  have cn: "connects s1 \<le> maxRetries * rejections s1 + k"
    using o t f by (simp add: owner_ok_def)
  have rc: "reconnecting s1" using o f by (simp add: owner_ok_def)
  show ?thesis
  proof (cases r)
    case (Suspended pc')
    let ?s2 = "set_task i (Connecting k pc') s1"
    have a: "\<not> attached pc' \<or> client s1 \<noteq> None" using f k(3) Suspended by auto
    have rj: "rejections ?s2 = rejections s1"
      using rejections_set_task [OF len nr, of "Connecting k pc'"] by simp
    have "others_out ?s2 i" using oth len by (auto simp: others_out_def nth_list_update)
    moreover have "attempt_ok ?s2 (tasks ?s2 ! i)" using len k a by (simp add: attempt_ok_def)
    moreover have "attempt_of (tasks ?s2 ! i) = k" using len by simp
    ultimately have "owner_ok ?s2 i" using len rc cn rj by (simp add: owner_ok_def)
    then show ?thesis using Suspended by (auto simp: serialised_def after_connect_def)
  next
    case ConnectResolved
    then have "pc = AwaitDOMEnable"
      using c by (cases pc; cases out) (auto simp: connect_failed_def split: if_splits)
    then have cl: "client s1 \<noteq> None" using k(3) f by (auto simp: attached_def)
    let ?s0 = "(record_action (ConnectReturned i) s1)\<lparr>reconnecting := False\<rparr>"
    let ?s2 = "set_task i Resolved ?s0"
    have rj: "rejections ?s2 = rejections s1"
      using rejections_set_task [of i ?s0 Resolved] len nr by simp
    have "\<forall>j < length (tasks ?s2). \<not> in_sequence (tasks ?s2 ! j)"
      using oth len by (auto simp: nth_list_update)
    moreover have "connects ?s2 \<le> maxRetries * rejections ?s2 + maxRetries"
      using cn k rj by simp
    ultimately have "idle_ok ?s2" using cl by (simp add: idle_ok_def)
    then show ?thesis using ConnectResolved by (simp add: serialised_def after_connect_def)
  next
    case (ConnectThrew e)
    show ?thesis
    proof (cases "k < maxRetries")
      case True
      let ?s0 = "record_action (BackoffSleep i retryDelay) (record_action (ConnectRejected i) s1)"
      let ?s2 = "set_task i (BackingOff k) ?s0"
      have rj: "rejections ?s2 = rejections s1"
        using rejections_set_task [of i ?s0 "BackingOff k"] len nr by simp
      have "others_out ?s2 i" using oth len by (auto simp: others_out_def nth_list_update)
      moreover have "attempt_ok ?s2 (tasks ?s2 ! i)" using len k True by (simp add: attempt_ok_def)
      moreover have "attempt_of (tasks ?s2 ! i) = k" using len by simp
      ultimately have "owner_ok ?s2 i" using len rc cn rj by (simp add: owner_ok_def)
      then show ?thesis using ConnectThrew True by (auto simp: serialised_def after_connect_def)
    next
      case False
      let ?m = "''Error: Failed to reconnect to Chromium after maximum retries''"
      let ?s0 = "(record_action (ConnectRejected i) s1)\<lparr>reconnecting := False\<rparr>"
      let ?s2 = "set_task i (Rejected ?m) ?s0"
      have rj: "rejections ?s2 = Suc (rejections s1)"
        using rejections_set_task [of i ?s0 "Rejected ?m"] len nr by simp
      have "\<forall>j < length (tasks ?s2). \<not> in_sequence (tasks ?s2 ! j)"
        using oth len by (auto simp: nth_list_update)
      moreover have "connects ?s2 \<le> maxRetries * rejections ?s2"
        using cn k rj by simp
      ultimately have "idle_ok ?s2" by (simp add: idle_ok_def)
      then show ?thesis using ConnectThrew False by (simp add: serialised_def after_connect_def)
    qed
  qed
qed

lemma resume_keeps_serialised:
  assumes "serialised s" "resume i out s = Some s'"
  shows "serialised s'"
proof -
  from assms(2) have len: "i < length (tasks s)" by (auto simp: resume_def split: if_splits)
  show ?thesis
  proof (cases "tasks s ! i")
    case NotCalled
    then have "s' = enter i s" using assms(2) len by (simp add: resume_def)
    moreover have "serialised (enter i s)"
      using assms(1) len NotCalled
      by (intro enter_keeps_serialised) simp_all
    ultimately show ?thesis by simp
  next
    case Waiting
    then have "s' = enter i s" using assms(2) len by (simp add: resume_def)
    moreover have "serialised (enter i s)"
      using assms(1) len Waiting
      by (intro enter_keeps_serialised) simp_all
    ultimately show ?thesis by simp
  next
    case (Connecting k pc)
    obtain r s1 where c: "connect_resume pc out s = (r, s1)" by fastforce
    have o: "owner_ok s i"
      using assms(1) len Connecting by (intro owner_of_sequence) simp_all
    have "s' = after_connect i k r s1" using assms(2) len Connecting c by (simp add: resume_def)
    with settled_connect_keeps_serialised [OF o Connecting c] show ?thesis by simp
  next
    case (BackingOff k)
    have o: "owner_ok s i"
      using assms(1) len BackingOff by (intro owner_of_sequence) simp_all
    have "s' = start_attempt i (Suc k) s" using assms(2) len BackingOff by (simp add: resume_def)
    with next_attempt_keeps_owner [OF o BackingOff] show ?thesis by (auto simp: serialised_def)
  next
    case Resolved
    with assms(2) len show ?thesis by (simp add: resume_def)
  next
    case (Rejected e)
    with assms(2) len show ?thesis by (simp add: resume_def)
  qed
qed

lemma run_keeps_serialised:
  "serialised s \<Longrightarrow> Disconnect \<notin> set es \<Longrightarrow> run es s = Some s' \<Longrightarrow> serialised s'"
proof (induction es arbitrary: s)
  case Nil
  then show ?case by simp
next
  case (Cons e es)
  from Cons.prems(2) obtain i out where e: "e = Resume i out" by (cases e) auto
  from Cons.prems(3) e obtain s1 where s1: "resume i out s = Some s1" "run es s1 = Some s'"
    by (auto split: option.splits)
  have "serialised s1" using Cons.prems(1) s1(1) by (rule resume_keeps_serialised)
  with Cons.IH [of s1] Cons.prems(2) s1(2) show ?case by simp
qed

lemma disconnected_serialised: "serialised (disconnected n)"
  by (simp add: serialised_def idle_ok_def disconnected_def connects_def)


lemma serialised_facts:
  assumes "serialised s"
  shows "(\<forall>i j. i < length (tasks s) \<and> j < length (tasks s) \<and>
                in_sequence (tasks s ! i) \<and> in_sequence (tasks s ! j) \<longrightarrow> i = j)"
    and "reconnecting s = (\<exists>i < length (tasks s). in_sequence (tasks s ! i))"
    and "connects s \<le> maxRetries * Suc (rejections s)"
proof -
  from assms consider (idle) "idle_ok s" | (owner) i where "owner_ok s i"
    by (auto simp: serialised_def)
  then have "(\<forall>i j. i < length (tasks s) \<and> j < length (tasks s) \<and>
                in_sequence (tasks s ! i) \<and> in_sequence (tasks s ! j) \<longrightarrow> i = j) \<and>
      reconnecting s = (\<exists>i < length (tasks s). in_sequence (tasks s ! i)) \<and>
      connects s \<le> maxRetries * Suc (rejections s)"
  proof cases
    case idle
    then show ?thesis by (auto simp: idle_ok_def)
  next
    case (owner i)
    have "in_sequence (tasks s ! i)" using owner by (rule owner_is_in_sequence)
    moreover have "attempt_of (tasks s ! i) \<le> maxRetries"
      using owner by (auto simp: owner_ok_def attempt_ok_def split: task.splits)
    ultimately show ?thesis
      using owner by (auto simp: owner_ok_def others_out_def)
  qed
  then show "(\<forall>i j. i < length (tasks s) \<and> j < length (tasks s) \<and>
                in_sequence (tasks s ! i) \<and> in_sequence (tasks s ! j) \<longrightarrow> i = j)"
    and "reconnecting s = (\<exists>i < length (tasks s). in_sequence (tasks s ! i))"
    and "connects s \<le> maxRetries * Suc (rejections s)" by blast+
qed

lemma enter_while_in_flight:
  "client s = None \<Longrightarrow> reconnecting s \<Longrightarrow> i < length (tasks s) \<Longrightarrow>
     connects (enter i s) = connects s \<and> tasks (enter i s) ! i = Waiting \<and>
     actions (enter i s) = actions s @ [WaitSleep i 2000] \<and> reconnecting (enter i s)"
  by (simp add: enter_def retryDelay_def RECONNECTION_RETRY_DELAY_MS_def)

lemma enter_fresh_sequence:
  "client s = None \<Longrightarrow> \<not> reconnecting s \<Longrightarrow> i < length (tasks s) \<Longrightarrow>
     connects (enter i s) = Suc (connects s) \<and> tasks (enter i s) ! i = Connecting 1 AwaitList \<and>
     actions (enter i s) = actions s @ [ConnectCalled i] \<and> reconnecting (enter i s)"
  by (simp add: enter_def start_attempt_def)

lemma enter_connected:
  "client s \<noteq> None \<Longrightarrow> i < length (tasks s) \<Longrightarrow>
     connects (enter i s) = connects s \<and> tasks (enter i s) ! i = Resolved \<and>
     actions (enter i s) = actions s"
  by (simp add: enter_def)

lemma resume_waiting:
  "i < length (tasks s) \<Longrightarrow> tasks s ! i = Waiting \<Longrightarrow> resume i out s = Some (enter i s)"
  by (simp add: resume_def)

lemma resume_exhausted:
  assumes "i < length (tasks s)" "tasks s ! i = Connecting 5 pc"
  shows "\<exists>s'. resume i (Failed e) s = Some s' \<and> is_rejected (tasks s' ! i) \<and>
              \<not> reconnecting s' \<and> connects s' = connects s \<and> client s' = client s"
  using assms
  by (simp add: resume_def after_connect_def connect_failed_def maxRetries_def
        MAX_RECONNECTION_RETRIES_def)

text \<open>
  C2 (as amended). After a disconnect and with no further disconnect, however the calls of
  \<open>n\<close> concurrent callers interleave: at most one caller at a time is inside the
  connect-and-back-off loop, and the \<open>reconnecting\<close> flag is set exactly while one is; the
  number of \<open>connect\<close> invocations is at most five times one more than the number of
  callers rejected so far, so at most 5 invocations occur in total as long as no sequence
  has been exhausted. A caller that finds no handle and the flag set calls \<open>connect\<close> not
  at all: it sets a timer of 2000 ms and waits. A waiting caller that wakes up runs
  \<open>ensureConnected\<close> again from its first line: it returns if a handle is stored, waits
  again if the flag is set, and otherwise starts a sequence of its own at attempt 1, with
  one more invocation of \<open>connect\<close>. The fifth failure of a sequence clears the flag, so
  that is what a caller waking up afterwards does.
\<close>

theorem one_reconnect_sequence_at_a_time:
  "(Disconnect \<notin> set es \<and> run es (disconnected n) = Some s \<longrightarrow>
      (\<forall>i j. i < length (tasks s) \<and> j < length (tasks s) \<and>
             in_sequence (tasks s ! i) \<and> in_sequence (tasks s ! j) \<longrightarrow> i = j) \<and>
      reconnecting s = (\<exists>i < length (tasks s). in_sequence (tasks s ! i)) \<and>
      connects s \<le> 5 * Suc (rejections s) \<and>
      (rejections s = 0 \<longrightarrow> connects s \<le> 5)) \<and>
   (client s0 = None \<and> reconnecting s0 \<and> i0 < length (tasks s0) \<longrightarrow>
      connects (enter i0 s0) = connects s0 \<and> tasks (enter i0 s0) ! i0 = Waiting \<and>
      actions (enter i0 s0) = actions s0 @ [WaitSleep i0 2000] \<and> reconnecting (enter i0 s0)) \<and>
   (i0 < length (tasks s0) \<and> tasks s0 ! i0 = Waiting \<longrightarrow>
      resume i0 out s0 = Some (enter i0 s0)) \<and>
   (client s0 = None \<and> \<not> reconnecting s0 \<and> i0 < length (tasks s0) \<longrightarrow>
      connects (enter i0 s0) = Suc (connects s0) \<and>
      tasks (enter i0 s0) ! i0 = Connecting 1 AwaitList \<and>
      actions (enter i0 s0) = actions s0 @ [ConnectCalled i0] \<and> reconnecting (enter i0 s0)) \<and>
   (client s0 \<noteq> None \<and> i0 < length (tasks s0) \<longrightarrow>
      connects (enter i0 s0) = connects s0 \<and> tasks (enter i0 s0) ! i0 = Resolved \<and>
      actions (enter i0 s0) = actions s0) \<and>
   (i0 < length (tasks s0) \<and> tasks s0 ! i0 = Connecting 5 pc \<longrightarrow>
      (\<exists>s'. resume i0 (Failed e) s0 = Some s' \<and> is_rejected (tasks s' ! i0) \<and>
            \<not> reconnecting s' \<and> connects s' = connects s0 \<and> client s' = client s0))"
proof (intro conjI impI)
  assume "client s0 = None \<and> reconnecting s0 \<and> i0 < length (tasks s0)"
  then show "connects (enter i0 s0) = connects s0" "tasks (enter i0 s0) ! i0 = Waiting"
    "actions (enter i0 s0) = actions s0 @ [WaitSleep i0 2000]" "reconnecting (enter i0 s0)"
    using enter_while_in_flight by blast+
next
  assume "i0 < length (tasks s0) \<and> tasks s0 ! i0 = Waiting"
  then show "resume i0 out s0 = Some (enter i0 s0)" by (simp add: resume_waiting)
next
  assume "client s0 = None \<and> \<not> reconnecting s0 \<and> i0 < length (tasks s0)"
  then show "connects (enter i0 s0) = Suc (connects s0)"
    "tasks (enter i0 s0) ! i0 = Connecting 1 AwaitList"
    "actions (enter i0 s0) = actions s0 @ [ConnectCalled i0]" "reconnecting (enter i0 s0)"
    using enter_fresh_sequence by blast+
next
  assume "client s0 \<noteq> None \<and> i0 < length (tasks s0)"
  then show "connects (enter i0 s0) = connects s0" "tasks (enter i0 s0) ! i0 = Resolved"
    "actions (enter i0 s0) = actions s0"
    using enter_connected by blast+
next
  assume "i0 < length (tasks s0) \<and> tasks s0 ! i0 = Connecting 5 pc"
  then show "\<exists>s'. resume i0 (Failed e) s0 = Some s' \<and> is_rejected (tasks s' ! i0) \<and>
            \<not> reconnecting s' \<and> connects s' = connects s0 \<and> client s' = client s0"
    by (simp add: resume_exhausted)
next
  assume a: "Disconnect \<notin> set es \<and> run es (disconnected n) = Some s"
  then have inv: "serialised s"
    using run_keeps_serialised [OF disconnected_serialised] by blast
  note f = serialised_facts [OF inv]
  show "\<forall>i j. i < length (tasks s) \<and> j < length (tasks s) \<and>
             in_sequence (tasks s ! i) \<and> in_sequence (tasks s ! j) \<longrightarrow> i = j" by (rule f(1))
  show "reconnecting s = (\<exists>i < length (tasks s). in_sequence (tasks s ! i))" by (rule f(2))
  show c: "connects s \<le> 5 * Suc (rejections s)"
    using f(3) by (simp add: maxRetries_def MAX_RECONNECTION_RETRIES_def)
  assume "rejections s = 0"
  with c show "connects s \<le> 5" by simp
qed

definition second_caller_arrives :: "event list" where
  "second_caller_arrives = [Resume 0 tick, Resume 0 refused, Resume 1 tick]"

definition first_backing_off :: controller where
  "first_backing_off =
     \<lparr>client = None, chrome = None, reconnecting = True,
      tasks = [BackingOff 1, NotCalled],
      actions = [ConnectCalled 0, ConnectRejected 0, BackoffSleep 0 2000]\<rparr>"

text \<open>
  Caller 1 asleep while caller 0 is in its fifth attempt; the same once that attempt has
  failed; and the same had that attempt attached to a target (handle 7).
\<close>

definition last_attempt :: controller where
  "last_attempt =
     \<lparr>client = None, chrome = None, reconnecting = True,
      tasks = [Connecting 5 AwaitList, Waiting], actions = []\<rparr>"

definition first_exhausted :: controller where
  "first_exhausted =
     \<lparr>client = None, chrome = None, reconnecting = False,
      tasks = [Rejected ''Error: Failed to reconnect to Chromium after maximum retries'', Waiting],
      actions = [ConnectRejected 0]\<rparr>"

theorem one_reconnect_sequence_at_a_time_witness:
  "Disconnect \<notin> set second_caller_arrives \<and>
   run [Resume 0 tick, Resume 0 refused] (disconnected 2) = Some first_backing_off \<and>
   run second_caller_arrives (disconnected 2) =
     Some (first_backing_off
             \<lparr>tasks := [BackingOff 1, Waiting],
              actions := [ConnectCalled 0, ConnectRejected 0, BackoffSleep 0 2000,
                          WaitSleep 1 2000]\<rparr>) \<and>
   connects first_backing_off = 1 \<and>
   connects (enter 1 first_backing_off) = 1 \<and>
   tasks (enter 1 first_backing_off) ! 1 = Waiting \<and>
   actions (enter 1 first_backing_off) =
     [ConnectCalled 0, ConnectRejected 0, BackoffSleep 0 2000, WaitSleep 1 2000] \<and>
   resume 1 tick last_attempt = Some (enter 1 last_attempt) \<and>
   tasks (enter 1 last_attempt) ! 1 = Waiting \<and>
   resume 0 refused last_attempt = Some first_exhausted \<and>
   resume 1 tick first_exhausted = Some (enter 1 first_exhausted) \<and>
   tasks (enter 1 first_exhausted) ! 1 = Connecting 1 AwaitList \<and>
   connects (enter 1 first_exhausted) = Suc (connects first_exhausted) \<and>
   tasks (enter 1 (first_exhausted\<lparr>client := Some 7\<rparr>)) ! 1 = Resolved \<and>
   connects (enter 1 (first_exhausted\<lparr>client := Some 7\<rparr>)) = connects first_exhausted"
proof -
  let ?s = "first_backing_off
             \<lparr>tasks := [BackingOff 1, Waiting],
              actions := [ConnectCalled 0, ConnectRejected 0, BackoffSleep 0 2000,
                          WaitSleep 1 2000]\<rparr>"
  let ?c = "first_exhausted\<lparr>client := Some 7\<rparr>"
  have nd: "Disconnect \<notin> set second_caller_arrives"
    by (simp add: second_caller_arrives_def)
  have r0: "run [Resume 0 tick, Resume 0 refused] (disconnected 2) = Some first_backing_off"
    by (simp add: controller_defs refused_def tick_def first_backing_off_def numeral_2_eq_2)
  have r1: "run second_caller_arrives (disconnected 2) = Some ?s"
    by (simp add: second_caller_arrives_def controller_defs refused_def tick_def
          first_backing_off_def numeral_2_eq_2)
  have h: "client first_backing_off = None \<and> reconnecting first_backing_off \<and>
           1 < length (tasks first_backing_off)"
    by (simp add: first_backing_off_def)
  have c: "connects first_backing_off = 1" "rejections ?s = 0"
      "actions first_backing_off = [ConnectCalled 0, ConnectRejected 0, BackoffSleep 0 2000]"
    by (simp_all add: first_backing_off_def connects_def rejections_def)
  have hl: "client last_attempt = None \<and> reconnecting last_attempt \<and>
            1 < length (tasks last_attempt)"
    and hw: "1 < length (tasks last_attempt) \<and> tasks last_attempt ! 1 = Waiting"
    and h5: "0 < length (tasks last_attempt) \<and> tasks last_attempt ! 0 = Connecting 5 AwaitList"
    by (simp_all add: last_attempt_def)
  have he: "client first_exhausted = None \<and> \<not> reconnecting first_exhausted \<and>
            1 < length (tasks first_exhausted)"
    and hw': "1 < length (tasks first_exhausted) \<and> tasks first_exhausted ! 1 = Waiting"
    by (simp_all add: first_exhausted_def)
  have hc: "client ?c \<noteq> None \<and> 1 < length (tasks ?c)" "connects ?c = connects first_exhausted"
    by (simp_all add: first_exhausted_def connects_def)
  have ex: "resume 0 refused last_attempt = Some first_exhausted"
    by (simp add: last_attempt_def first_exhausted_def controller_defs refused_def)
  note a = one_reconnect_sequence_at_a_time
             [where es = second_caller_arrives and n = 2 and s = ?s
                and ?s0.0 = first_backing_off and ?i0.0 = 1]
  note b = one_reconnect_sequence_at_a_time
             [where ?s0.0 = last_attempt and ?i0.0 = 1 and out = tick]
  note b' = one_reconnect_sequence_at_a_time
             [where ?s0.0 = last_attempt and ?i0.0 = 0 and pc = AwaitList
                and e = "''connect ECONNREFUSED 127.0.0.1:9222''"]
  note d = one_reconnect_sequence_at_a_time
             [where ?s0.0 = first_exhausted and ?i0.0 = 1 and out = tick]
  note g = one_reconnect_sequence_at_a_time [where ?s0.0 = ?c and ?i0.0 = 1]
  from a nd r1 h c
  have "connects ?s \<le> 5 \<and> connects (enter 1 first_backing_off) = connects first_backing_off \<and>
        tasks (enter 1 first_backing_off) ! 1 = Waiting \<and>
        actions (enter 1 first_backing_off) = actions first_backing_off @ [WaitSleep 1 2000]"
    by blast
  moreover from b hl hw
  have "resume 1 tick last_attempt = Some (enter 1 last_attempt) \<and>
        tasks (enter 1 last_attempt) ! 1 = Waiting" by blast
  moreover from b' h5
  have "\<exists>s'. resume 0 (Failed ''connect ECONNREFUSED 127.0.0.1:9222'') last_attempt = Some s' \<and>
         is_rejected (tasks s' ! 0) \<and> \<not> reconnecting s'" by blast
  moreover from d he hw'
  have "resume 1 tick first_exhausted = Some (enter 1 first_exhausted) \<and>
        tasks (enter 1 first_exhausted) ! 1 = Connecting 1 AwaitList \<and>
        connects (enter 1 first_exhausted) = Suc (connects first_exhausted)" by blast
  moreover from g hc
  have "tasks (enter 1 ?c) ! 1 = Resolved \<and> connects (enter 1 ?c) = connects first_exhausted"
    by metis
  ultimately show ?thesis using nd r0 r1 c ex by simp
qed


subsection \<open>One caller, from call to return\<close>





































end
